theory Spec2Isabelle
  imports Complex_Main
begin

section \<open>Quantization aware training ops: \<^verbatim>\<open>praxis/layers/quantization/aqt.py\<close>\<close>

text \<open>
  The module defines one layer, \<^verbatim>\<open>TensorQuantizer\<close>, with two attributes and five small
  methods, and the helper \<^verbatim>\<open>_pass_through\<close>.  Python names that start with an underscore
  lose it here (\<^verbatim>\<open>_get_clip_bound\<close> is \<open>get_clip_bound\<close>).

  Numbers.  The module computes with two kinds of number.  The clip bounds are Python
  floats, that is binary64: they are modelled as the real numbers they denote, and
  every operation rounds its exact result to 53 significant bits.  The elements of a
  JAX array are values of the array's element type, modelled as the real numbers they
  denote, with the two infinities and NaN: every arithmetic operation on arrays rounds
  its exact result to the element type of its result, and a Python float that meets an
  array is first converted to that type.
\<close>

subsection \<open>Errors\<close>

text \<open>
  \<^verbatim>\<open>assert\<close> raises \<open>AssertionError\<close>; arithmetic on an absent precision
  (\<^verbatim>\<open>2.0 ** None\<close>) raises \<open>TypeError\<close>; a float power too large for a Python
  float raises \<open>OverflowError\<close>; JAX rejects a bad axis and NumPy rejects \<^verbatim>\<open>finfo\<close> of
  a non-float type with \<open>ValueError\<close>.
\<close>

datatype error = AssertionError | TypeError | ValueError | OverflowError

subsection \<open>The layer's attributes and \<^verbatim>\<open>setup\<close>\<close>

record TensorQuantizer =
  precision :: "int option"
  stop_scale_gradient :: bool

text \<open>
  \<^verbatim>\<open>
  def setup(self):
    assert (
        self.precision is None or self.precision <= 23
    ), 'Too many bits, float32 has less precision.'
  \<close>
  (\<open>setup\<close> is a keyword of Isabelle, so the method is \<open>setup_layer\<close> here.)
\<close>

definition setup_layer :: "TensorQuantizer \<Rightarrow> error + unit" where
  "setup_layer self =
     (case precision self of
        None \<Rightarrow> Inr ()
      | Some p \<Rightarrow> if p \<le> 23 then Inr () else Inl AssertionError)"

subsection \<open>Python floats\<close>

text \<open>
  A binary floating type with \<open>t\<close> significant bits rounds a real number to the nearest
  representable value, ties to even: the number is scaled by a power of two \<open>q\<close> so that
  its magnitude lies in \<open>[2 ^ (t - 1), 2 ^ t)\<close>, rounded to an integer, and scaled back.
\<close>

definition round_half_even :: "real \<Rightarrow> int" where
  "round_half_even x =
     (let f = \<lfloor>x\<rfloor>; d = x - of_int f
      in if d < 1 / 2 then f else if 1 / 2 < d then f + 1 else if even f then f else f + 1)"

definition float_convert :: "nat \<Rightarrow> real \<Rightarrow> real" where
  "float_convert t r =
     (if r = 0 then 0
      else let e = \<lfloor>log 2 \<bar>r\<bar>\<rfloor>; q = 2 powi (e - int t + 1)
           in of_int (round_half_even (r / q)) * q)"

text \<open>
  A Python float has 53 significant bits.  \<open>fl64\<close> rounds the exact result of \<open>-\<close> and
  \<open>/\<close>; the results these operations have in this module are zero or of magnitude
  between \<open>2 ^ -21\<close> and \<open>2 ^ 1023\<close>, where binary64 has its full precision.
  \<^verbatim>\<open>2.0 ** n\<close> for a Python int \<open>n\<close> is the exact power of two where binary64 has it
  (down to the smallest subnormal, \<open>2 ^ -1074\<close>); below that it is \<open>0.0\<close>, and above
  \<open>2 ^ 1023\<close> Python raises \<open>OverflowError\<close>.
\<close>

definition fl64 :: "real \<Rightarrow> real" where
  "fl64 r = float_convert 53 r"

definition float_pow2 :: "int \<Rightarrow> error + real" where
  "float_pow2 n =
     (if 1023 < n then Inl OverflowError else if n < - 1074 then Inr 0 else Inr (2 powi n))"

subsection \<open>Clip bounds\<close>

text \<open>
  \<^verbatim>\<open>
  def _get_clip_bound(self) -> float:
    bucket_count = 2.0**self.precision
    bucket_count -= 1.0
    return bucket_count / 2.0
  \<close>
\<close>

definition get_clip_bound :: "TensorQuantizer \<Rightarrow> error + real" where
  "get_clip_bound self =
     (case precision self of
        None \<Rightarrow> Inl TypeError
      | Some p \<Rightarrow>
          (case float_pow2 p of
             Inl e \<Rightarrow> Inl e
           | Inr bucket_count \<Rightarrow>
               let bucket_count = fl64 (bucket_count - 1)
               in Inr (fl64 (bucket_count / 2))))"

text \<open>
  \<^verbatim>\<open>
  def _safe_clip_bound(self) -> float:
    cb_unsafe = self._get_clip_bound()
    cb = cb_unsafe - 2.0 ** (-20 + self.precision)
    assert cb < cb_unsafe, 'Internal error, epsilon too small.'
    return cb
  \<close>
\<close>

definition safe_clip_bound :: "TensorQuantizer \<Rightarrow> error + real" where
  "safe_clip_bound self =
     (case get_clip_bound self of
        Inl e \<Rightarrow> Inl e
      | Inr cb_unsafe \<Rightarrow>
          (case precision self of
             None \<Rightarrow> Inl TypeError
           | Some p \<Rightarrow>
               (case float_pow2 (-20 + p) of
                  Inl e \<Rightarrow> Inl e
                | Inr eps \<Rightarrow>
                    let cb = fl64 (cb_unsafe - eps)
                    in if cb < cb_unsafe then Inr cb else Inl AssertionError)))"

subsection \<open>Array elements\<close>

text \<open>
  An element of a JAX array: a finite value, one of the two infinities, or NaN (an
  element of an integer array is a finite value).  The functions of this section are
  the exact operations on such values; the array operations below round their results.
  The model has one zero, and a division by it behaves as IEEE division by positive
  zero does (the only zero divisor the module can produce is the clip bound
  \<^verbatim>\<open>(2.0**0 - 1.0) / 2.0\<close>, which is \<open>+0.0\<close>).
\<close>

datatype jfloat = Fin real | PInf | NInf | NaN

fun jf_neg :: "jfloat \<Rightarrow> jfloat" where
  "jf_neg (Fin a) = Fin (- a)"
| "jf_neg PInf = NInf"
| "jf_neg NInf = PInf"
| "jf_neg NaN = NaN"

fun jf_add :: "jfloat \<Rightarrow> jfloat \<Rightarrow> jfloat" where
  "jf_add (Fin a) (Fin b) = Fin (a + b)"
| "jf_add NaN _ = NaN"
| "jf_add _ NaN = NaN"
| "jf_add PInf NInf = NaN"
| "jf_add NInf PInf = NaN"
| "jf_add PInf _ = PInf"
| "jf_add _ PInf = PInf"
| "jf_add NInf _ = NInf"
| "jf_add _ NInf = NInf"

definition jf_sub :: "jfloat \<Rightarrow> jfloat \<Rightarrow> jfloat" where
  "jf_sub a b = jf_add a (jf_neg b)"

fun jf_div :: "jfloat \<Rightarrow> jfloat \<Rightarrow> jfloat" where
  "jf_div (Fin a) (Fin b) =
     (if b = 0 then (if a = 0 then NaN else if 0 < a then PInf else NInf) else Fin (a / b))"
| "jf_div NaN _ = NaN"
| "jf_div _ NaN = NaN"
| "jf_div (Fin a) _ = Fin 0"
| "jf_div PInf (Fin b) = (if 0 \<le> b then PInf else NInf)"
| "jf_div NInf (Fin b) = (if 0 \<le> b then NInf else PInf)"
| "jf_div PInf PInf = NaN"
| "jf_div PInf NInf = NaN"
| "jf_div NInf PInf = NaN"
| "jf_div NInf NInf = NaN"

text \<open>\<^verbatim>\<open>jnp.maximum\<close> and \<^verbatim>\<open>jnp.minimum\<close> propagate NaN.\<close>

fun jf_maximum :: "jfloat \<Rightarrow> jfloat \<Rightarrow> jfloat" where
  "jf_maximum (Fin a) (Fin b) = Fin (max a b)"
| "jf_maximum NaN _ = NaN"
| "jf_maximum _ NaN = NaN"
| "jf_maximum PInf _ = PInf"
| "jf_maximum _ PInf = PInf"
| "jf_maximum NInf b = b"
| "jf_maximum a NInf = a"

fun jf_minimum :: "jfloat \<Rightarrow> jfloat \<Rightarrow> jfloat" where
  "jf_minimum (Fin a) (Fin b) = Fin (min a b)"
| "jf_minimum NaN _ = NaN"
| "jf_minimum _ NaN = NaN"
| "jf_minimum NInf _ = NInf"
| "jf_minimum _ NInf = NInf"
| "jf_minimum PInf b = b"
| "jf_minimum a PInf = a"

fun jf_abs :: "jfloat \<Rightarrow> jfloat" where
  "jf_abs (Fin a) = Fin \<bar>a\<bar>"
| "jf_abs PInf = PInf"
| "jf_abs NInf = PInf"
| "jf_abs NaN = NaN"

fun jf_floor :: "jfloat \<Rightarrow> jfloat" where
  "jf_floor (Fin a) = Fin (of_int \<lfloor>a\<rfloor>)"
| "jf_floor v = v"

fun is_inf :: "jfloat \<Rightarrow> bool" where
  "is_inf PInf = True"
| "is_inf NInf = True"
| "is_inf v = False"

fun is_finite :: "jfloat \<Rightarrow> bool" where
  "is_finite (Fin a) = True"
| "is_finite v = False"

text \<open>\<open>in_range lo hi v\<close>: the element \<open>v\<close> is a finite value of the interval \<open>[lo, hi]\<close>.\<close>

fun in_range :: "real \<Rightarrow> real \<Rightarrow> jfloat \<Rightarrow> bool" where
  "in_range lo hi (Fin a) = (lo \<le> a \<and> a \<le> hi)"
| "in_range lo hi v = False"

text \<open>The comparison \<^verbatim>\<open>==\<close>: NaN equals nothing, not even itself.\<close>

fun jf_eq :: "jfloat \<Rightarrow> jfloat \<Rightarrow> bool" where
  "jf_eq NaN _ = False"
| "jf_eq _ NaN = False"
| "jf_eq a b = (a = b)"

subsection \<open>Element types\<close>

text \<open>
  The element types of the model are two integer types and the three floating types of
  at most 32 bits (JAX keeps the 64-bit types disabled unless it is asked for them).
  A floating type has \<open>sig_bits\<close> significant bits, the hidden one counted, and normal
  exponents from \<open>min_exp\<close> to \<open>max_exp\<close>; an integer type has \<open>int_bits\<close> bits, one of
  them the sign.  (\<open>sig_bits\<close>, \<open>min_exp\<close> and \<open>max_exp\<close> are used at floating types
  only, and \<open>int_bits\<close> at integer types only.)
\<close>

datatype dtype = Int8 | Int32 | BFloat16 | Float16 | Float32

fun is_floating :: "dtype \<Rightarrow> bool" where
  "is_floating Int8 = False"
| "is_floating Int32 = False"
| "is_floating BFloat16 = True"
| "is_floating Float16 = True"
| "is_floating Float32 = True"

fun sig_bits :: "dtype \<Rightarrow> nat" where
  "sig_bits BFloat16 = 8"
| "sig_bits Float16 = 11"
| "sig_bits Float32 = 24"
| "sig_bits Int8 = 8"
| "sig_bits Int32 = 32"

fun min_exp :: "dtype \<Rightarrow> int" where
  "min_exp BFloat16 = - 126"
| "min_exp Float16 = - 14"
| "min_exp Float32 = - 126"
| "min_exp Int8 = 0"
| "min_exp Int32 = 0"

fun max_exp :: "dtype \<Rightarrow> int" where
  "max_exp BFloat16 = 127"
| "max_exp Float16 = 15"
| "max_exp Float32 = 127"
| "max_exp Int8 = 6"
| "max_exp Int32 = 30"

fun int_bits :: "dtype \<Rightarrow> nat" where
  "int_bits Int8 = 8"
| "int_bits Int32 = 32"
| "int_bits BFloat16 = 16"
| "int_bits Float16 = 16"
| "int_bits Float32 = 32"

text \<open>
  \<^verbatim>\<open>jnp.finfo(dtype).eps\<close> is the distance from 1 to the next value of a floating type;
  \<^verbatim>\<open>finfo\<close> of an integer type raises \<open>ValueError\<close>.
\<close>

fun finfo_eps :: "dtype \<Rightarrow> error + real" where
  "finfo_eps BFloat16 = Inr (2 powi (- 7))"
| "finfo_eps Float16 = Inr (2 powi (- 10))"
| "finfo_eps Float32 = Inr (2 powi (- 23))"
| "finfo_eps Int8 = Inl ValueError"
| "finfo_eps Int32 = Inl ValueError"

text \<open>
  Rounding a real number to a floating type, to nearest and ties to even.  Below the
  smallest normal number \<open>2 ^ min_exp\<close> the representable values are evenly spaced
  (the subnormal numbers); from there on the spacing follows the binade, as in
  \<open>float_convert\<close>; and a result that leaves the exponent range is an infinity.
\<close>

definition nearest :: "nat \<Rightarrow> int \<Rightarrow> real \<Rightarrow> real" where
  "nearest t emin r =
     (if \<bar>r\<bar> < 2 powi emin
      then of_int (round_half_even (r / 2 powi (emin - int t + 1))) * 2 powi (emin - int t + 1)
      else float_convert t r)"

definition round_format :: "nat \<Rightarrow> int \<Rightarrow> int \<Rightarrow> real \<Rightarrow> jfloat" where
  "round_format t emin emax r =
     (let y = nearest t emin r
      in if 2 powi (emax + 1) \<le> \<bar>y\<bar> then (if 0 < r then PInf else NInf) else Fin y)"

definition round_to :: "dtype \<Rightarrow> real \<Rightarrow> jfloat" where
  "round_to d r = round_format (sig_bits d) (min_exp d) (max_exp d) r"

text \<open>
  Integer types.  Integer arithmetic and the conversion between integer types wrap
  around; the conversion of a float to an integer type drops the fraction, saturates
  at the ends of the range, and turns NaN into 0.
\<close>

definition int_min :: "dtype \<Rightarrow> int" where
  "int_min d = - (2 ^ (int_bits d - 1))"

definition int_max :: "dtype \<Rightarrow> int" where
  "int_max d = 2 ^ (int_bits d - 1) - 1"

definition wrap :: "dtype \<Rightarrow> int \<Rightarrow> int" where
  "wrap d n = (n - int_min d) mod 2 ^ int_bits d + int_min d"

definition trunc :: "real \<Rightarrow> int" where
  "trunc a = (if 0 \<le> a then \<lfloor>a\<rfloor> else \<lceil>a\<rceil>)"

fun float_to_int :: "dtype \<Rightarrow> jfloat \<Rightarrow> jfloat" where
  "float_to_int d (Fin a) = Fin (of_int (max (int_min d) (min (int_max d) (trunc a))))"
| "float_to_int d PInf = Fin (of_int (int_max d))"
| "float_to_int d NInf = Fin (of_int (int_min d))"
| "float_to_int d NaN = Fin 0"

text \<open>
  \<open>round_result d v\<close> is the exact result \<open>v\<close> of an arithmetic operation as an array of
  element type \<open>d\<close> holds it.  \<open>convert_element_type src dst v\<close> is the element \<open>v\<close> of an
  array of type \<open>src\<close> converted to the type \<open>dst\<close>.
\<close>

fun round_result :: "dtype \<Rightarrow> jfloat \<Rightarrow> jfloat" where
  "round_result d (Fin a) = (if is_floating d then round_to d a else Fin (of_int (wrap d \<lfloor>a\<rfloor>)))"
| "round_result d v = v"

definition convert_element_type :: "dtype \<Rightarrow> dtype \<Rightarrow> jfloat \<Rightarrow> jfloat" where
  "convert_element_type src dst v =
     (if is_floating dst \<or> \<not> is_floating src then round_result dst v else float_to_int dst v)"

text \<open>
  Type promotion.  A Python float that meets an array takes the array's element type
  when that is a floating type, and makes the result \<^verbatim>\<open>float32\<close> when it is an integer
  type.  Two arrays (or an array and a NumPy scalar, which has a type of its own) meet
  in the smallest type above both in JAX's lattice: two different floating types meet
  in \<^verbatim>\<open>float32\<close>, and an integer type and a floating type in the floating type.
\<close>

definition weak_float_result :: "dtype \<Rightarrow> dtype" where
  "weak_float_result d = (if is_floating d then d else Float32)"

definition promote_types :: "dtype \<Rightarrow> dtype \<Rightarrow> dtype" where
  "promote_types a b =
     (if a = b then a
      else if is_floating a \<and> is_floating b then Float32
      else if is_floating a then a
      else if is_floating b then b
      else Int32)"

subsection \<open>Arrays\<close>

text \<open>
  A \<^verbatim>\<open>JTensor\<close> is its shape, its elements in row-major order, and its element type.
\<close>

record JTensor =
  shape :: "nat list"
  elems :: "jfloat list"
  dtype :: dtype

definition ndim :: "JTensor \<Rightarrow> nat" where
  "ndim x = length (shape x)"

definition tmap :: "(jfloat \<Rightarrow> jfloat) \<Rightarrow> JTensor \<Rightarrow> JTensor" where
  "tmap f x = x\<lparr>elems := map f (elems x)\<rparr>"

text \<open>\<^verbatim>\<open>x.astype(dtype)\<close>, and the conversion that type promotion inserts.\<close>

definition astype :: "JTensor \<Rightarrow> dtype \<Rightarrow> JTensor" where
  "astype x dt =
     \<lparr>shape = shape x, elems = map (convert_element_type (dtype x) dt) (elems x), dtype = dt\<rparr>"

definition convert_to :: "JTensor \<Rightarrow> dtype \<Rightarrow> JTensor" where
  "convert_to x d = (if dtype x = d then x else astype x d)"

text \<open>
  An array and a Python float: the float is converted to the type of the result.
  \<open>scalar_select\<close> is for \<^verbatim>\<open>maximum\<close> and \<^verbatim>\<open>minimum\<close>, whose result is one of the two
  operands, and \<open>scalar_arith\<close> for \<open>+\<close> and \<open>/\<close>, whose result is rounded.
\<close>

definition scalar_select :: "(jfloat \<Rightarrow> jfloat \<Rightarrow> jfloat) \<Rightarrow> JTensor \<Rightarrow> real \<Rightarrow> JTensor" where
  "scalar_select f x c =
     (let d = weak_float_result (dtype x);
          x = convert_to x d;
          c = round_to d c
      in tmap (\<lambda>v. f v c) x)"

definition scalar_arith :: "(jfloat \<Rightarrow> jfloat \<Rightarrow> jfloat) \<Rightarrow> JTensor \<Rightarrow> real \<Rightarrow> JTensor" where
  "scalar_arith f x c =
     (let d = weak_float_result (dtype x);
          x = convert_to x d;
          c = round_to d c
      in tmap (\<lambda>v. round_result d (f v c)) x)"

text \<open>
  Two arrays of one shape, and an array and a NumPy scalar \<open>c\<close> of type \<open>ds\<close>: the
  operands are converted to the type they meet in, and the result is rounded to it.
\<close>

definition array_arith :: "(jfloat \<Rightarrow> jfloat \<Rightarrow> jfloat) \<Rightarrow> JTensor \<Rightarrow> JTensor \<Rightarrow> JTensor" where
  "array_arith f x y =
     (let d = promote_types (dtype x) (dtype y);
          x = convert_to x d;
          y = convert_to y d
      in x\<lparr>elems := map2 (\<lambda>u v. round_result d (f u v)) (elems x) (elems y)\<rparr>)"

definition typed_scalar_arith ::
    "(jfloat \<Rightarrow> jfloat \<Rightarrow> jfloat) \<Rightarrow> JTensor \<Rightarrow> dtype \<Rightarrow> real \<Rightarrow> JTensor" where
  "typed_scalar_arith f x ds c =
     (let d = promote_types (dtype x) ds;
          x = convert_to x d;
          c = convert_element_type ds d (Fin c)
      in tmap (\<lambda>v. round_result d (f v c)) x)"

subsection \<open>The \<^verbatim>\<open>jax.numpy\<close> functions the module calls\<close>

text \<open>
  \<^verbatim>\<open>jnp.abs\<close> keeps the element type (so the absolute value of the smallest integer
  wraps around); \<^verbatim>\<open>jnp.floor\<close> of an integer array gives a \<^verbatim>\<open>float32\<close> array.
\<close>

definition jnp_abs :: "JTensor \<Rightarrow> JTensor" where
  "jnp_abs x =
     (if is_floating (dtype x) then tmap jf_abs x
      else tmap (\<lambda>v. round_result (dtype x) (jf_abs v)) x)"

definition jnp_floor :: "JTensor \<Rightarrow> JTensor" where
  "jnp_floor x = tmap jf_floor (convert_to x (weak_float_result (dtype x)))"

text \<open>
  \<^verbatim>\<open>jnp.clip(a, a_min, a_max)\<close> takes the maximum with \<^verbatim>\<open>a_min\<close> and then the minimum
  with \<^verbatim>\<open>a_max\<close>.
\<close>

definition jnp_clip :: "JTensor \<Rightarrow> real \<Rightarrow> real \<Rightarrow> JTensor" where
  "jnp_clip a a_min a_max =
     (let a = scalar_select (\<lambda>v c. jf_maximum c v) a a_min;
          a = scalar_select (\<lambda>v c. jf_minimum c v) a a_max
      in a)"

definition jnp_ones :: "nat list \<Rightarrow> dtype \<Rightarrow> JTensor" where
  "jnp_ones shp dt = \<lparr>shape = shp, elems = replicate (prod_list shp) (Fin 1), dtype = dt\<rparr>"

definition jnp_ones_like :: "JTensor \<Rightarrow> JTensor" where
  "jnp_ones_like x = x\<lparr>elems := replicate (length (elems x)) (Fin 1)\<rparr>"

text \<open>\<^verbatim>\<open>jnp.where(c, x, y)\<close> for a mask and two arrays of one shape and type.\<close>

definition jnp_where :: "bool list \<Rightarrow> JTensor \<Rightarrow> JTensor \<Rightarrow> JTensor" where
  "jnp_where c x y =
     y\<lparr>elems := map (\<lambda>(b, u, v). if b then u else v) (zip c (zip (elems x) (elems y)))\<rparr>"

text \<open>
  \<^verbatim>\<open>jnp.max(x, axis=contract_dims, keepdims=True)\<close>.  \<^verbatim>\<open>contract_dims\<close> is an int or a
  sequence of ints, modelled as a list (a single int \<open>a\<close> is \<open>[a]\<close>).  An axis may be
  negative (counted from the end); an axis out of range, an axis named twice and a
  reduction over an axis of size zero raise \<open>ValueError\<close>.

  \<open>reduce_max shp cs xs\<close> reduces the row-major elements \<open>xs\<close> of an array of shape
  \<open>shp\<close> over the axes flagged in \<open>cs\<close>: the array is cut into its \<open>d\<close> slices along the
  first axis, each slice is reduced over the remaining axes, and the reduced slices are
  combined elementwise by the maximum when the first axis is flagged and concatenated
  otherwise.
\<close>

fun canonicalize_axis :: "nat \<Rightarrow> int \<Rightarrow> error + nat" where
  "canonicalize_axis n a =
     (if - int n \<le> a \<and> a < int n then Inr (nat (if a < 0 then a + int n else a))
      else Inl ValueError)"

fun canonicalize_axes :: "nat \<Rightarrow> int list \<Rightarrow> error + nat list" where
  "canonicalize_axes n [] = Inr []"
| "canonicalize_axes n (a # as) =
     (case canonicalize_axis n a of
        Inl e \<Rightarrow> Inl e
      | Inr d \<Rightarrow>
          (case canonicalize_axes n as of
             Inl e \<Rightarrow> Inl e
           | Inr ds \<Rightarrow> if d \<in> set ds then Inl ValueError else Inr (d # ds)))"

fun reduce_max :: "nat list \<Rightarrow> bool list \<Rightarrow> jfloat list \<Rightarrow> jfloat list" where
  "reduce_max [] cs xs = xs"
| "reduce_max (d # ds) [] xs = xs"
| "reduce_max (d # ds) (c # cs) xs =
     (let n = prod_list ds;
          rows = map (\<lambda>i. reduce_max ds cs (take n (drop (i * n) xs))) [0..<d]
      in if c then (case rows of [] \<Rightarrow> [] | r # rs \<Rightarrow> fold (\<lambda>u acc. map2 jf_maximum acc u) rs r)
         else concat rows)"

definition jnp_max_keepdims :: "JTensor \<Rightarrow> int list \<Rightarrow> error + JTensor" where
  "jnp_max_keepdims x axis =
     (case canonicalize_axes (ndim x) axis of
        Inl e \<Rightarrow> Inl e
      | Inr ds \<Rightarrow>
          let cs = map (\<lambda>i. i \<in> set ds) [0..<ndim x]
          in if list_ex (\<lambda>(d, c). c \<and> d = 0) (zip (shape x) cs) then Inl ValueError
             else Inr \<lparr>shape = map2 (\<lambda>d c. if c then 1 else d) (shape x) cs,
                       elems = reduce_max (shape x) cs (elems x),
                       dtype = dtype x\<rparr>)"

subsection \<open>\<^verbatim>\<open>_pass_through\<close>\<close>

text \<open>
  \<^verbatim>\<open>
  def _pass_through(x: JTensor, fn) -> JTensor:
    # Create an exactly-zero expression with Sterbenz lemma that has an
    # exactly-one gradient.
    return x - jax.lax.stop_gradient(x) + jax.lax.stop_gradient(fn(x))
  \<close>
  On values \<^verbatim>\<open>jax.lax.stop_gradient\<close> is the identity; what it does to derivatives is
  modelled in the section on derivatives below.
\<close>

definition stop_gradient :: "JTensor \<Rightarrow> JTensor" where
  "stop_gradient x = x"

definition pass_through :: "JTensor \<Rightarrow> (JTensor \<Rightarrow> JTensor) \<Rightarrow> JTensor" where
  "pass_through x fn =
     array_arith jf_add (array_arith jf_sub x (stop_gradient x)) (stop_gradient (fn x))"

subsection \<open>\<^verbatim>\<open>get_quant_scale\<close>\<close>

text \<open>
  \<^verbatim>\<open>
  def get_quant_scale(self, x, contract_dims, dtype=jnp.bfloat16) -> JTensor:
    if self.precision is None:
      return jnp.ones(shape=(1,) * x.ndim, dtype=dtype)

    x_bound = jnp.max(jnp.abs(x), axis=contract_dims, keepdims=True)
    clip_bound = self._get_clip_bound()
    scale = x_bound / clip_bound
    if self.stop_scale_gradient:
      scale = jax.lax.stop_gradient(scale)
      scale = jnp.where(scale == 0, jnp.ones_like(scale), scale)
    else:
      # Add a small to avoid NaN gradients for near-zero inputs during training.
      scale = scale + jnp.finfo(dtype).eps
    return scale.astype(dtype)
  \<close>
  \<^verbatim>\<open>clip_bound\<close> is a Python float; \<^verbatim>\<open>jnp.finfo(dtype).eps\<close> is a NumPy scalar of type
  \<^verbatim>\<open>dtype\<close>.
\<close>

definition get_quant_scale ::
    "TensorQuantizer \<Rightarrow> JTensor \<Rightarrow> int list \<Rightarrow> dtype \<Rightarrow> error + JTensor" where
  "get_quant_scale self x contract_dims dt =
     (case precision self of
        None \<Rightarrow> Inr (jnp_ones (replicate (ndim x) 1) dt)
      | Some _ \<Rightarrow>
          (case jnp_max_keepdims (jnp_abs x) contract_dims of
             Inl e \<Rightarrow> Inl e
           | Inr x_bound \<Rightarrow>
               (case get_clip_bound self of
                  Inl e \<Rightarrow> Inl e
                | Inr clip_bound \<Rightarrow>
                    let scale = scalar_arith jf_div x_bound clip_bound
                    in if stop_scale_gradient self then
                         let scale = stop_gradient scale;
                             scale = jnp_where (map (\<lambda>v. jf_eq v (Fin 0)) (elems scale))
                                       (jnp_ones_like scale) scale
                         in Inr (astype scale dt)
                       else
                         (case finfo_eps dt of
                            Inl e \<Rightarrow> Inl e
                          | Inr eps \<Rightarrow>
                              let scale = typed_scalar_arith jf_add scale dt eps
                              in Inr (astype scale dt)))))"

subsection \<open>\<^verbatim>\<open>to_quant\<close>\<close>

text \<open>
  \<^verbatim>\<open>
  def to_quant(self, x: JTensor, dtype=jnp.bfloat16):
    if self.precision is None:
      return x.astype(dtype)

    clip_bound = self._safe_clip_bound()
    x = jnp.clip(x, -clip_bound, clip_bound)
    x = _pass_through(x + 0.5, jnp.floor)

    return x.astype(dtype)
  \<close>
\<close>

definition to_quant :: "TensorQuantizer \<Rightarrow> JTensor \<Rightarrow> dtype \<Rightarrow> error + JTensor" where
  "to_quant self x dt =
     (case precision self of
        None \<Rightarrow> Inr (astype x dt)
      | Some _ \<Rightarrow>
          (case safe_clip_bound self of
             Inl e \<Rightarrow> Inl e
           | Inr clip_bound \<Rightarrow>
               let x = jnp_clip x (- clip_bound) clip_bound;
                   x = pass_through (scalar_arith jf_add x (1 / 2)) jnp_floor
               in Inr (astype x dt)))"

subsection \<open>Derivatives\<close>

text \<open>
  JAX differentiates a program by carrying, with every value, its tangent: the
  derivative of that value with respect to the input (\<^verbatim>\<open>jax.jvp\<close>).  \<open>to_quant\<close> acts on
  every element of the array by itself, so its derivative is taken one element at a
  time: a \<open>dual\<close> is one element with its tangent, and the functions below are the
  array operations of \<open>to_quant\<close> on one element of an array of type \<open>d\<close>.  The rules are
  those of JAX: a Python scalar is a constant; \<open>+\<close> and \<open>-\<close> add and subtract tangents;
  \<^verbatim>\<open>stop_gradient\<close> keeps the value and sets the tangent to zero; \<^verbatim>\<open>floor\<close> has
  derivative zero; \<^verbatim>\<open>maximum\<close> and \<^verbatim>\<open>minimum\<close> pass the tangent of the operand that
  equals the result, half of each at a tie; a conversion converts the tangent as it
  converts the value between floating types, and the tangent is zero when either type
  is an integer type.  Tangents are real numbers: those that occur for the input
  tangent 1 (0, 1/2 and 1) are values of every floating type.
\<close>

record dual =
  primal :: jfloat
  tangent :: real

definition d_const :: "dtype \<Rightarrow> real \<Rightarrow> dual" where
  "d_const d c = \<lparr>primal = round_to d c, tangent = 0\<rparr>"

definition d_add :: "dtype \<Rightarrow> dual \<Rightarrow> dual \<Rightarrow> dual" where
  "d_add d a b =
     \<lparr>primal = round_result d (jf_add (primal a) (primal b)), tangent = tangent a + tangent b\<rparr>"

definition d_sub :: "dtype \<Rightarrow> dual \<Rightarrow> dual \<Rightarrow> dual" where
  "d_sub d a b =
     \<lparr>primal = round_result d (jf_sub (primal a) (primal b)), tangent = tangent a - tangent b\<rparr>"

definition d_stop_gradient :: "dual \<Rightarrow> dual" where
  "d_stop_gradient a = a\<lparr>tangent := 0\<rparr>"

definition d_floor :: "dual \<Rightarrow> dual" where
  "d_floor a = \<lparr>primal = jf_floor (primal a), tangent = 0\<rparr>"

definition balanced_eq :: "jfloat \<Rightarrow> jfloat \<Rightarrow> jfloat \<Rightarrow> real" where
  "balanced_eq x z y = (if jf_eq x z then 1 else 0) / (if jf_eq y z then 2 else 1)"

definition d_maximum :: "dual \<Rightarrow> dual \<Rightarrow> dual" where
  "d_maximum a b =
     (let z = jf_maximum (primal a) (primal b)
      in \<lparr>primal = z,
          tangent = tangent a * balanced_eq (primal a) z (primal b)
                    + tangent b * balanced_eq (primal b) z (primal a)\<rparr>)"

definition d_minimum :: "dual \<Rightarrow> dual \<Rightarrow> dual" where
  "d_minimum a b =
     (let z = jf_minimum (primal a) (primal b)
      in \<lparr>primal = z,
          tangent = tangent a * balanced_eq (primal a) z (primal b)
                    + tangent b * balanced_eq (primal b) z (primal a)\<rparr>)"

definition d_clip :: "dtype \<Rightarrow> dual \<Rightarrow> real \<Rightarrow> real \<Rightarrow> dual" where
  "d_clip d a a_min a_max =
     (let a = d_maximum (d_const d a_min) a;
          a = d_minimum (d_const d a_max) a
      in a)"

definition d_astype :: "dtype \<Rightarrow> dual \<Rightarrow> dtype \<Rightarrow> dual" where
  "d_astype src a dst =
     \<lparr>primal = convert_element_type src dst (primal a),
      tangent = (if is_floating src \<and> is_floating dst
                 then (case round_to dst (tangent a) of Fin g \<Rightarrow> g | _ \<Rightarrow> tangent a)
                 else 0)\<rparr>"

definition d_convert :: "dtype \<Rightarrow> dual \<Rightarrow> dtype \<Rightarrow> dual" where
  "d_convert src a dst = (if src = dst then a else d_astype src a dst)"

definition pass_through_jvp :: "dtype \<Rightarrow> dual \<Rightarrow> (dual \<Rightarrow> dual) \<Rightarrow> dual" where
  "pass_through_jvp d x fn = d_add d (d_sub d x (d_stop_gradient x)) (d_stop_gradient (fn x))"

text \<open>\<open>to_quant_jvp self xt x dt\<close>: \<open>x\<close> is an element of an array of type \<open>xt\<close>.\<close>

definition to_quant_jvp :: "TensorQuantizer \<Rightarrow> dtype \<Rightarrow> dual \<Rightarrow> dtype \<Rightarrow> error + dual" where
  "to_quant_jvp self xt x dt =
     (case precision self of
        None \<Rightarrow> Inr (d_astype xt x dt)
      | Some _ \<Rightarrow>
          (case safe_clip_bound self of
             Inl e \<Rightarrow> Inl e
           | Inr clip_bound \<Rightarrow>
               let d = weak_float_result xt;
                   x = d_convert xt x d;
                   x = d_clip d x (- clip_bound) clip_bound;
                   x = pass_through_jvp d (d_add d x (d_const d (1 / 2))) d_floor
               in Inr (d_astype d x dt)))"

subsection \<open>One element of \<open>to_quant\<close>\<close>

text \<open>
  What \<open>to_quant\<close> with the safe clip bound \<open>sb\<close> computes from one element \<open>v\<close> of an array
  of floating type \<open>d\<close> (see \<open>to_quant_elems\<close>): the clip against the bound as \<open>d\<close> holds
  it, the sum with 0.5 rounded to \<open>d\<close>, its floor, and the conversion to \<open>dt\<close>.  Where the
  clip leaves an infinity, the difference \<^verbatim>\<open>x - x\<close> in \<^verbatim>\<open>_pass_through\<close> is NaN.
\<close>

definition clip_elem :: "dtype \<Rightarrow> real \<Rightarrow> jfloat \<Rightarrow> jfloat" where
  "clip_elem d sb v = jf_minimum (round_to d sb) (jf_maximum (round_to d (- sb)) v)"

definition half_added :: "dtype \<Rightarrow> real \<Rightarrow> jfloat \<Rightarrow> jfloat" where
  "half_added d sb v = round_result d (jf_add (clip_elem d sb v) (round_to d (1 / 2)))"

definition quant_elem :: "dtype \<Rightarrow> real \<Rightarrow> dtype \<Rightarrow> jfloat \<Rightarrow> jfloat" where
  "quant_elem d sb dt v =
     convert_element_type d dt
       (let a = half_added d sb v in if is_inf a then NaN else jf_floor a)"



text \<open>
  The formula of the specification, in exact arithmetic: the clip to the safe bound,
  then round half up.
\<close>

definition round_half_up_clipped :: "real \<Rightarrow> real \<Rightarrow> int" where
  "round_half_up_clipped sb v = \<lfloor>min sb (max (- sb) v) + 1 / 2\<rfloor>"

section \<open>Properties\<close>

subsection \<open>Rounding to a binary floating type\<close>

lemma round_half_even_int: "round_half_even (of_int k) = k"
  by (simp add: round_half_even_def)

lemma round_half_even_bounds: "\<lfloor>x\<rfloor> \<le> round_half_even x" "round_half_even x \<le> \<lfloor>x\<rfloor> + 1"
  by (simp_all add: round_half_even_def Let_def)

lemma round_half_even_mono:
  assumes "x \<le> y"
  shows "round_half_even x \<le> round_half_even y"
proof (cases "\<lfloor>x\<rfloor> = \<lfloor>y\<rfloor>")
  case True
  with assms show ?thesis
    by (auto simp: round_half_even_def Let_def)
next
  case False
  with assms have "\<lfloor>x\<rfloor> + 1 \<le> \<lfloor>y\<rfloor>"
    using floor_mono [OF assms] by linarith
  with round_half_even_bounds [of x] round_half_even_bounds [of y] show ?thesis
    by linarith
qed

lemma powi_split: "(2::real) powi a * 2 powi b = 2 powi (a + b)"
  by (simp add: power_int_add)

lemma floor_log2_iff:
  assumes "0 < x"
  shows "(\<lfloor>log 2 x\<rfloor> = k) = (2 powi k \<le> x \<and> x < 2 powi (k + 1))"
  using floor_log_eq_powr_iff [OF assms, of 2 k]
    powr_real_of_int' [of 2 k] powr_real_of_int' [of 2 "k + 1"]
  by simp

lemma binade:
  assumes "r \<noteq> 0"
  shows "2 powi \<lfloor>log 2 \<bar>r\<bar>\<rfloor> \<le> \<bar>r\<bar>" and "\<bar>r\<bar> < 2 powi (\<lfloor>log 2 \<bar>r\<bar>\<rfloor> + 1)"
proof -
  have pos: "0 < \<bar>r\<bar>" using assms by simp
  from floor_log2_iff [OF pos, of "\<lfloor>log 2 \<bar>r\<bar>\<rfloor>"]
  show "2 powi \<lfloor>log 2 \<bar>r\<bar>\<rfloor> \<le> \<bar>r\<bar>" and "\<bar>r\<bar> < 2 powi (\<lfloor>log 2 \<bar>r\<bar>\<rfloor> + 1)"
    by simp_all
qed

lemma binade_unique:
  assumes "2 powi k \<le> \<bar>r\<bar>" and "\<bar>r\<bar> < 2 powi (k + 1)"
  shows "\<lfloor>log 2 \<bar>r\<bar>\<rfloor> = k"
proof -
  have "(0::real) < 2 powi k" by (rule zero_less_power_int) simp
  with assms have pos: "0 < \<bar>r\<bar>" by linarith
  show ?thesis
    using floor_log2_iff [OF pos, of k] assms by simp
qed

lemma binade_mono:
  assumes "0 < \<bar>r1\<bar>" and "\<bar>r1\<bar> \<le> \<bar>r2\<bar>"
  shows "\<lfloor>log 2 \<bar>r1\<bar>\<rfloor> \<le> \<lfloor>log 2 \<bar>r2\<bar>\<rfloor>"
  using assms by (intro floor_mono) simp

lemma quantum_times:
  fixes e :: int and t :: nat
  defines "q \<equiv> (2::real) powi (e - int t + 1)"
  shows "0 < q" and "2 ^ t * q = 2 powi (e + 1)" and "0 < t \<Longrightarrow> 2 ^ (t - 1) * q = 2 powi e"
proof -
  show "0 < q" unfolding q_def by (rule zero_less_power_int) simp
  have "(2::real) ^ t * q = 2 powi (int t) * 2 powi (e - int t + 1)"
    unfolding q_def by simp
  also have "\<dots> = 2 powi (int t + (e - int t + 1))" by (rule powi_split)
  also have "\<dots> = 2 powi (e + 1)" by simp
  finally show "2 ^ t * q = 2 powi (e + 1)" .
  assume "0 < t"
  have "(2::real) ^ (t - 1) * q = 2 powi (int (t - 1)) * 2 powi (e - int t + 1)"
    unfolding q_def by (simp only: power_int_of_nat)
  also have "\<dots> = 2 powi (int (t - 1) + (e - int t + 1))" by (rule powi_split)
  also have "int (t - 1) + (e - int t + 1) = e" using \<open>0 < t\<close> by simp
  finally show "2 ^ (t - 1) * q = 2 powi e" .
qed

lemma scaled_bounds:
  fixes r :: real and t :: nat
  assumes "r \<noteq> 0" and "0 < t"
  defines "q \<equiv> 2 powi (\<lfloor>log 2 \<bar>r\<bar>\<rfloor> - int t + 1)"
  shows "2 ^ (t - 1) \<le> \<bar>r\<bar> / q" and "\<bar>r\<bar> / q < 2 ^ t"
proof -
  note qt = quantum_times [where e = "\<lfloor>log 2 \<bar>r\<bar>\<rfloor>" and t = t, folded q_def]
  from binade [OF assms(1)] have "2 ^ (t - 1) * q \<le> \<bar>r\<bar>" "\<bar>r\<bar> < 2 ^ t * q"
    unfolding qt(2) qt(3) [OF assms(2)] by simp_all
  then show "2 ^ (t - 1) \<le> \<bar>r\<bar> / q" and "\<bar>r\<bar> / q < 2 ^ t"
    using qt(1) by (simp_all add: field_simps)
qed

lemma float_convert_nonzero:
  "r \<noteq> 0 \<Longrightarrow> float_convert t r
     = of_int (round_half_even (r / 2 powi (\<lfloor>log 2 \<bar>r\<bar>\<rfloor> - int t + 1))) * 2 powi (\<lfloor>log 2 \<bar>r\<bar>\<rfloor> - int t + 1)"
  by (simp add: float_convert_def Let_def)

lemma float_convert_pos_bounds:
  assumes "0 < r" and "0 < t"
  shows "2 powi \<lfloor>log 2 \<bar>r\<bar>\<rfloor> \<le> float_convert t r"
    and "float_convert t r \<le> 2 powi (\<lfloor>log 2 \<bar>r\<bar>\<rfloor> + 1)"
proof -
  let ?e = "\<lfloor>log 2 \<bar>r\<bar>\<rfloor>"
  let ?q = "2 powi (?e - int t + 1) :: real"
  have r0: "r \<noteq> 0" using assms by simp
  note sb = scaled_bounds [OF r0 assms(2)]
  note qt = quantum_times [where e = ?e and t = t]
  have lo: "of_int (2 ^ (t - 1)) \<le> r / ?q" using sb(1) assms(1) by simp
  have hi: "r / ?q \<le> of_int (2 ^ t)" using sb(2) assms(1) by simp
  from round_half_even_mono [OF lo] have k1: "2 ^ (t - 1) \<le> round_half_even (r / ?q)"
    by (simp only: round_half_even_int)
  from round_half_even_mono [OF hi] have k2: "round_half_even (r / ?q) \<le> 2 ^ t"
    by (simp only: round_half_even_int)
  have "of_int (2 ^ (t - 1)) \<le> (of_int (round_half_even (r / ?q)) :: real)"
    using k1 by (simp only: of_int_le_iff)
  then have "2 ^ (t - 1) * ?q \<le> of_int (round_half_even (r / ?q)) * ?q"
    using qt(1) by (intro mult_right_mono) simp_all
  then show "2 powi ?e \<le> float_convert t r"
    unfolding float_convert_nonzero [OF r0] qt(3) [OF assms(2)] .
  have "(of_int (round_half_even (r / ?q)) :: real) \<le> of_int (2 ^ t)"
    using k2 by (simp only: of_int_le_iff)
  then have "of_int (round_half_even (r / ?q)) * ?q \<le> 2 ^ t * ?q"
    using qt(1) by (intro mult_right_mono) simp_all
  then show "float_convert t r \<le> 2 powi (?e + 1)"
    unfolding float_convert_nonzero [OF r0] qt(2) .
qed

lemma float_convert_neg_bounds:
  assumes "r < 0" and "0 < t"
  shows "- (2 powi (\<lfloor>log 2 \<bar>r\<bar>\<rfloor> + 1)) \<le> float_convert t r"
    and "float_convert t r \<le> - (2 powi \<lfloor>log 2 \<bar>r\<bar>\<rfloor>)"
proof -
  let ?e = "\<lfloor>log 2 \<bar>r\<bar>\<rfloor>"
  let ?q = "2 powi (?e - int t + 1) :: real"
  have r0: "r \<noteq> 0" using assms by simp
  note sb = scaled_bounds [OF r0 assms(2)]
  note qt = quantum_times [where e = ?e and t = t]
  have abs: "\<bar>r\<bar> / ?q = - (r / ?q)" using assms(1) by simp
  have hi: "r / ?q \<le> of_int (- (2 ^ (t - 1)))" using sb(1) unfolding abs by simp
  have lo: "of_int (- (2 ^ t)) \<le> r / ?q" using sb(2) unfolding abs by simp
  from round_half_even_mono [OF hi] have k1: "round_half_even (r / ?q) \<le> - (2 ^ (t - 1))"
    by (simp only: round_half_even_int)
  from round_half_even_mono [OF lo] have k2: "- (2 ^ t) \<le> round_half_even (r / ?q)"
    by (simp only: round_half_even_int)
  have "(of_int (round_half_even (r / ?q)) :: real) \<le> of_int (- (2 ^ (t - 1)))"
    using k1 by (simp only: of_int_le_iff)
  then have "of_int (round_half_even (r / ?q)) * ?q \<le> - (2 ^ (t - 1)) * ?q"
    using qt(1) by (intro mult_right_mono) simp_all
  then show "float_convert t r \<le> - (2 powi ?e)"
    unfolding float_convert_nonzero [OF r0] using qt(3) [OF assms(2)] by simp
  have "of_int (- (2 ^ t)) \<le> (of_int (round_half_even (r / ?q)) :: real)"
    using k2 by (simp only: of_int_le_iff)
  then have "- (2 ^ t) * ?q \<le> of_int (round_half_even (r / ?q)) * ?q"
    using qt(1) by (intro mult_right_mono) simp_all
  then show "- (2 powi (?e + 1)) \<le> float_convert t r"
    unfolding float_convert_nonzero [OF r0] using qt(2) by simp
qed


lemma float_convert_same_binade:
  assumes "r1 \<noteq> 0" and "r2 \<noteq> 0" and "\<lfloor>log 2 \<bar>r1\<bar>\<rfloor> = \<lfloor>log 2 \<bar>r2\<bar>\<rfloor>" and "r1 \<le> r2"
  shows "float_convert t r1 \<le> float_convert t r2"
proof -
  let ?q = "2 powi (\<lfloor>log 2 \<bar>r2\<bar>\<rfloor> - int t + 1) :: real"
  have q: "0 < ?q" by (rule zero_less_power_int) simp
  then have "r1 / ?q \<le> r2 / ?q"
    using assms(4) by (simp add: divide_right_mono)
  then have "round_half_even (r1 / ?q) \<le> round_half_even (r2 / ?q)"
    by (rule round_half_even_mono)
  then have "(of_int (round_half_even (r1 / ?q)) :: real) \<le> of_int (round_half_even (r2 / ?q))"
    by (simp only: of_int_le_iff)
  then have "of_int (round_half_even (r1 / ?q)) * ?q \<le> of_int (round_half_even (r2 / ?q)) * ?q"
    using q by (intro mult_right_mono) simp_all
  then show ?thesis
    unfolding float_convert_nonzero [OF assms(1)] float_convert_nonzero [OF assms(2)] assms(3) .
qed

lemma float_convert_sign:
  assumes "0 < t"
  shows "0 < r \<Longrightarrow> 0 < float_convert t r" and "r < 0 \<Longrightarrow> float_convert t r < 0"
proof -
  have p: "(0::real) < 2 powi \<lfloor>log 2 \<bar>r\<bar>\<rfloor>" by (rule zero_less_power_int) simp
  show "0 < r \<Longrightarrow> 0 < float_convert t r"
    using float_convert_pos_bounds(1) [OF _ assms, of r] p by linarith
  show "r < 0 \<Longrightarrow> float_convert t r < 0"
    using float_convert_neg_bounds(2) [OF _ assms, of r] p by linarith
qed

lemma float_convert_zero: "float_convert t 0 = 0"
  by (simp add: float_convert_def)

lemma float_convert_mono:
  assumes t: "0 < t" and le: "r1 \<le> r2"
  shows "float_convert t r1 \<le> float_convert t r2"
proof -
  let ?e1 = "\<lfloor>log 2 \<bar>r1\<bar>\<rfloor>" and ?e2 = "\<lfloor>log 2 \<bar>r2\<bar>\<rfloor>"
  consider "r1 = 0" | "r2 = 0" | "r1 < 0" "0 < r2" | "0 < r1" "0 < r2" | "r1 < 0" "r2 < 0"
    using le by linarith
  then show ?thesis
  proof cases
    case 1
    then show ?thesis
      using le float_convert_sign(1) [OF t, of r2] by (cases "r2 = 0") (simp_all add: float_convert_zero)
  next
    case 2
    then show ?thesis
      using le float_convert_sign(2) [OF t, of r1] by (cases "r1 = 0") (simp_all add: float_convert_zero)
  next
    case 3
    then show ?thesis
      using float_convert_sign(1) [OF t, of r2] float_convert_sign(2) [OF t, of r1] by simp
  next
    case 4
    then have "?e1 \<le> ?e2" using le by (intro binade_mono) simp_all
    then consider "?e1 = ?e2" | "?e1 + 1 \<le> ?e2" by linarith
    then show ?thesis
    proof cases
      case 1
      with 4 le show ?thesis by (intro float_convert_same_binade) simp_all
    next
      case 2
      then have "(2::real) powi (?e1 + 1) \<le> 2 powi ?e2"
        by (intro power_int_increasing) simp_all
      with float_convert_pos_bounds(2) [OF 4(1) t] float_convert_pos_bounds(1) [OF 4(2) t]
      show ?thesis by linarith
    qed
  next
    case 5
    then have "?e2 \<le> ?e1" using le by (intro binade_mono) simp_all
    then consider "?e1 = ?e2" | "?e2 + 1 \<le> ?e1" by linarith
    then show ?thesis
    proof cases
      case 1
      with 5 le show ?thesis by (intro float_convert_same_binade) simp_all
    next
      case 2
      then have "(2::real) powi (?e2 + 1) \<le> 2 powi ?e1"
        by (intro power_int_increasing) simp_all
      with float_convert_neg_bounds(2) [OF 5(1) t] float_convert_neg_bounds(1) [OF 5(2) t]
      show ?thesis by linarith
    qed
  qed
qed

lemma float_convert_exact:
  assumes t: "0 < t" and k: "\<bar>k\<bar> < 2 ^ t"
  shows "float_convert t (of_int k * 2 powi j) = of_int k * 2 powi j"
proof (cases "k = 0")
  case True
  then show ?thesis by (simp add: float_convert_zero)
next
  case False
  let ?v = "of_int k * 2 powi j :: real"
  let ?e = "\<lfloor>log 2 \<bar>?v\<bar>\<rfloor>"
  let ?q = "2 powi (?e - int t + 1) :: real"
  have pj: "(0::real) < 2 powi j" by (rule zero_less_power_int) simp
  have v0: "?v \<noteq> 0" using False by simp
  have "\<bar>?v\<bar> = of_int \<bar>k\<bar> * 2 powi j"
    using pj by (simp add: abs_mult)
  also have "\<dots> < 2 ^ t * 2 powi j"
  proof -
    have "(of_int \<bar>k\<bar> :: real) < of_int (2 ^ t)" using k by (simp only: of_int_less_iff)
    then show ?thesis using pj by simp
  qed
  also have "\<dots> = 2 powi (int t + j)"
    using powi_split [of "int t" j] by simp
  finally have "2 powi ?e < (2::real) powi (int t + j)"
    using binade(1) [OF v0] by linarith
  then have "?e < int t + j"
    using power_int_increasing [of "int t + j" ?e "2::real"] by (cases "?e < int t + j") simp_all
  then obtain d :: nat where d: "j = (?e - int t + 1) + int d"
    by (metis add.commute add_diff_eq diff_add_cancel zle_iff_zadd zless_imp_add1_zle)
  have "?v = of_int k * (2 powi (?e - int t + 1) * 2 powi (int d))"
    by (subst d) (simp only: powi_split)
  then have v: "?v = of_int (k * 2 ^ d) * ?q"
    by (simp add: mult_ac)
  have q: "?q \<noteq> 0" by simp
  have "?v / ?q = of_int (k * 2 ^ d)"
    by (subst v) (simp only: nonzero_mult_div_cancel_right [OF q])
  then have rh: "round_half_even (?v / ?q) = k * 2 ^ d"
    by (simp only: round_half_even_int)
  show ?thesis
    unfolding float_convert_nonzero [OF v0] rh by (rule v [symmetric])
qed


lemma scaled_round_bound:
  fixes r :: real
  assumes "r \<noteq> 0" and "0 < t"
  shows "\<bar>round_half_even (r / 2 powi (\<lfloor>log 2 \<bar>r\<bar>\<rfloor> - int t + 1))\<bar> \<le> 2 ^ t"
proof -
  let ?q = "2 powi (\<lfloor>log 2 \<bar>r\<bar>\<rfloor> - int t + 1) :: real"
  have q: "0 < ?q" by (rule zero_less_power_int) simp
  from scaled_bounds(2) [OF assms] q have "\<bar>r / ?q\<bar> \<le> 2 ^ t" by simp
  then have "- (2 ^ t) \<le> r / ?q" "r / ?q \<le> 2 ^ t"
    by linarith+
  then have "of_int (- (2 ^ t)) \<le> r / ?q" "r / ?q \<le> of_int (2 ^ t)"
    by simp_all
  from round_half_even_mono [OF this(1)] round_half_even_mono [OF this(2)]
  show ?thesis by (simp only: round_half_even_int abs_le_iff) simp
qed

lemma float_convert_idem:
  assumes t: "0 < t"
  shows "float_convert t (float_convert t r) = float_convert t r"
proof (cases "r = 0")
  case True
  then show ?thesis by (simp add: float_convert_zero)
next
  case False
  let ?j = "\<lfloor>log 2 \<bar>r\<bar>\<rfloor> - int t + 1"
  let ?K = "round_half_even (r / 2 powi ?j)"
  have fc: "float_convert t r = of_int ?K * 2 powi ?j"
    by (rule float_convert_nonzero [OF False])
  from scaled_round_bound [OF False t] consider "\<bar>?K\<bar> < 2 ^ t" | "?K = 2 ^ t" | "?K = - (2 ^ t)"
    by linarith
  then show ?thesis
  proof cases
    case 1
    then show ?thesis unfolding fc by (rule float_convert_exact [OF t])
  next
    case 2
    have half: "\<bar>(2::int) ^ (t - 1)\<bar> < 2 ^ t" using t by simp
    have "(of_int (2 ^ t) :: real) * 2 powi ?j = of_int (2 ^ (t - 1)) * 2 powi (?j + 1)"
    proof -
      have "(2::real) ^ t = 2 ^ (t - 1) * 2" using t by (cases t) simp_all
      moreover have "(2::real) powi (?j + 1) = 2 powi ?j * 2" using powi_split [of ?j 1] by simp
      ultimately show ?thesis by simp
    qed
    then show ?thesis
      unfolding fc 2 using float_convert_exact [OF t half, of "?j + 1"] by simp
  next
    case 3
    have half: "\<bar>- ((2::int) ^ (t - 1))\<bar> < 2 ^ t" using t by simp
    have "(of_int (- (2 ^ t)) :: real) * 2 powi ?j = of_int (- (2 ^ (t - 1))) * 2 powi (?j + 1)"
    proof -
      have "(2::real) ^ t = 2 ^ (t - 1) * 2" using t by (cases t) simp_all
      moreover have "(2::real) powi (?j + 1) = 2 powi ?j * 2" using powi_split [of ?j 1] by simp
      ultimately show ?thesis by simp
    qed
    then show ?thesis
      unfolding fc 3 using float_convert_exact [OF t half, of "?j + 1"] by simp
  qed
qed

lemma float_convert_int:
  assumes t: "0 < t"
  shows "float_convert t (of_int n) \<in> \<int>"
proof (cases "\<bar>n\<bar> < 2 ^ t")
  case True
  from float_convert_exact [OF t True, of 0] show ?thesis by simp
next
  case False
  then have n0: "(of_int n :: real) \<noteq> 0" by auto
  let ?e = "\<lfloor>log 2 \<bar>of_int n :: real\<bar>\<rfloor>"
  have "(2::real) powi (int t) \<le> \<bar>of_int n\<bar>"
  proof -
    have "(of_int (2 ^ t) :: real) \<le> of_int \<bar>n\<bar>" using False by (simp only: of_int_le_iff)
    then show ?thesis by simp
  qed
  then have "\<not> \<bar>of_int n :: real\<bar> < 2 powi (int t)" by simp
  then have "\<not> ?e + 1 \<le> int t"
    using binade(2) [OF n0] power_int_increasing [of "?e + 1" "int t" "2::real"] by auto
  then obtain d :: nat where d: "?e - int t + 1 = int d"
    by (metis add.commute add_diff_eq diff_ge_0_iff_ge linorder_le_cases nonneg_int_cases)
  have "(2::real) powi (int d) \<in> \<int>" by simp
  then show ?thesis
    unfolding float_convert_nonzero [OF n0] d by (intro Ints_mult Ints_of_int)
qed

subsection \<open>Rounding to an element type\<close>

lemma round_half_even_le: "x \<le> of_int n \<Longrightarrow> round_half_even x \<le> n"
  using round_half_even_mono [of x "of_int n"] by (simp add: round_half_even_int)

lemma round_half_even_ge: "of_int n \<le> x \<Longrightarrow> n \<le> round_half_even x"
  using round_half_even_mono [of "of_int n" x] by (simp add: round_half_even_int)

lemma subnormal_quantum:
  fixes t :: nat and emin :: int
  defines "q \<equiv> (2::real) powi (emin - int t + 1)"
  assumes t: "0 < t"
  shows "0 < q" and "2 ^ (t - 1) * q = 2 powi emin"
  using quantum_times(1,3) [where e = emin and t = t] t unfolding q_def by simp_all

lemma nearest_subnormal_bounds:
  assumes t: "0 < t" and r: "\<bar>r\<bar> < 2 powi emin"
  shows "\<bar>nearest t emin r\<bar> \<le> 2 powi emin"
proof -
  define q :: real where "q = 2 powi (emin - int t + 1)"
  note sq = subnormal_quantum [OF t, of emin, folded q_def]
  have "\<bar>r\<bar> / q < 2 ^ (t - 1)"
    using r sq by (simp add: field_simps)
  then have "r / q \<le> of_int (2 ^ (t - 1))" "of_int (- (2 ^ (t - 1))) \<le> r / q"
    using sq(1) by (simp_all add: abs_less_iff field_simps)
  then have "round_half_even (r / q) \<le> 2 ^ (t - 1)" "- (2 ^ (t - 1)) \<le> round_half_even (r / q)"
    by (simp_all only: round_half_even_le round_half_even_ge)
  then have "\<bar>round_half_even (r / q)\<bar> \<le> 2 ^ (t - 1)" by linarith
  then have "\<bar>real_of_int (round_half_even (r / q))\<bar> \<le> 2 ^ (t - 1)"
    by (metis of_int_abs of_int_le_iff of_int_numeral of_int_power)
  then have "\<bar>real_of_int (round_half_even (r / q))\<bar> * q \<le> 2 ^ (t - 1) * q"
    by (rule mult_right_mono) (use sq(1) in simp)
  then have "\<bar>real_of_int (round_half_even (r / q))\<bar> * q \<le> 2 powi emin"
    unfolding sq(2) .
  moreover have "\<bar>real_of_int (round_half_even (r / q)) * q\<bar> = \<bar>real_of_int (round_half_even (r / q))\<bar> * q"
    using sq(1) by (simp add: abs_mult)
  ultimately have "\<bar>real_of_int (round_half_even (r / q)) * q\<bar> \<le> 2 powi emin"
    by simp
  moreover have "nearest t emin r = real_of_int (round_half_even (r / q)) * q"
    using r by (simp add: nearest_def q_def)
  ultimately show ?thesis by simp
qed

lemma binade_ge:
  assumes "2 powi k \<le> \<bar>r\<bar>"
  shows "k \<le> \<lfloor>log 2 \<bar>r\<bar>\<rfloor>"
proof -
  have pos: "(0::real) < 2 powi k" by (rule zero_less_power_int) simp
  have "\<lfloor>log 2 \<bar>2 powi k :: real\<bar>\<rfloor> = k"
    by (rule binade_unique) (simp_all add: power_int_strict_increasing)
  moreover have "\<lfloor>log 2 \<bar>2 powi k :: real\<bar>\<rfloor> \<le> \<lfloor>log 2 \<bar>r\<bar>\<rfloor>"
    by (rule binade_mono) (use pos assms in simp_all)
  ultimately show ?thesis by simp
qed

lemma nearest_normal_pos:
  assumes t: "0 < t" and r: "2 powi emin \<le> r"
  shows "2 powi emin \<le> nearest t emin r"
proof -
  have pos: "0 < r" using r zero_less_power_int [of "2::real" emin] by linarith
  then have r0: "r \<noteq> 0" "\<bar>r\<bar> = r" by simp_all
  have "emin \<le> \<lfloor>log 2 \<bar>r\<bar>\<rfloor>"
    by (rule binade_ge) (use r r0 in simp)
  then have "(2::real) powi emin \<le> 2 powi \<lfloor>log 2 \<bar>r\<bar>\<rfloor>"
    by (intro power_int_increasing) simp_all
  also have "\<dots> \<le> float_convert t r"
    by (rule float_convert_pos_bounds(1) [OF pos t])
  finally show ?thesis using r r0 by (simp add: nearest_def)
qed

lemma nearest_normal_neg:
  assumes t: "0 < t" and r: "r \<le> - (2 powi emin)"
  shows "nearest t emin r \<le> - (2 powi emin)"
proof -
  have neg: "r < 0" using r zero_less_power_int [of "2::real" emin] by linarith
  then have r0: "r \<noteq> 0" "\<bar>r\<bar> = - r" by simp_all
  have le: "2 powi emin \<le> \<bar>r\<bar>" using r r0 by linarith
  have "emin \<le> \<lfloor>log 2 \<bar>r\<bar>\<rfloor>"
    by (rule binade_ge) (rule le)
  then have "(2::real) powi emin \<le> 2 powi \<lfloor>log 2 \<bar>r\<bar>\<rfloor>"
    by (intro power_int_increasing) simp_all
  moreover have "float_convert t r \<le> - (2 powi \<lfloor>log 2 \<bar>r\<bar>\<rfloor>)"
    by (rule float_convert_neg_bounds(2) [OF neg t])
  ultimately show ?thesis using le by (simp add: nearest_def)
qed

lemma nearest_mono:
  assumes t: "0 < t" and le: "r \<le> s"
  shows "nearest t emin r \<le> nearest t emin s"
proof -
  define q :: real where "q = 2 powi (emin - int t + 1)"
  note sq = subnormal_quantum [OF t, of emin, folded q_def]
  consider (ss) "\<bar>r\<bar> < 2 powi emin" "\<bar>s\<bar> < 2 powi emin"
    | (nn) "\<not> \<bar>r\<bar> < 2 powi emin" "\<not> \<bar>s\<bar> < 2 powi emin"
    | (sn) "\<bar>r\<bar> < 2 powi emin" "\<not> \<bar>s\<bar> < 2 powi emin"
    | (ns) "\<not> \<bar>r\<bar> < 2 powi emin" "\<bar>s\<bar> < 2 powi emin"
    by blast
  then show ?thesis
  proof cases
    case ss
    have "r / q \<le> s / q" using le sq(1) by (simp add: divide_right_mono)
    then have "round_half_even (r / q) \<le> round_half_even (s / q)"
      by (rule round_half_even_mono)
    then have "real_of_int (round_half_even (r / q)) * q \<le> real_of_int (round_half_even (s / q)) * q"
      using sq(1) by (simp add: mult_right_mono)
    then show ?thesis using ss by (simp add: nearest_def q_def)
  next
    case nn
    then show ?thesis using float_convert_mono [OF t le] by (simp add: nearest_def)
  next
    case sn
    then have "2 powi emin \<le> s" using le by linarith
    from nearest_normal_pos [OF t this] nearest_subnormal_bounds [OF t sn(1)]
    show ?thesis by linarith
  next
    case ns
    then have "r \<le> - (2 powi emin)" using le by linarith
    from nearest_normal_neg [OF t this] nearest_subnormal_bounds [OF t ns(2)]
    show ?thesis by linarith
  qed
qed

lemma nearest_exact:
  assumes t: "0 < t" and k: "\<bar>k\<bar> < 2 ^ t" and j: "emin - int t + 1 \<le> j"
  shows "nearest t emin (of_int k * 2 powi j) = of_int k * 2 powi j"
proof (cases "\<bar>of_int k * 2 powi j :: real\<bar> < 2 powi emin")
  case True
  define q :: real where "q = 2 powi (emin - int t + 1)"
  note sq = subnormal_quantum [OF t, of emin, folded q_def]
  define n where "n = nat (j - (emin - int t + 1))"
  have "(2::real) powi j = 2 powi (int n) * q"
    unfolding q_def n_def using j powi_split [of "j - (emin - int t + 1)" "emin - int t + 1"] by simp
  then have "(of_int k * 2 powi j :: real) / q = of_int (k * 2 ^ n)"
    using sq(1) by simp
  then have "round_half_even ((of_int k * 2 powi j :: real) / q) = k * 2 ^ n"
    by (simp only: round_half_even_int)
  then have "real_of_int (round_half_even ((of_int k * 2 powi j :: real) / q)) * q = of_int k * 2 powi j"
    using \<open>(2::real) powi j = 2 powi (int n) * q\<close> by simp
  then show ?thesis using True by (simp add: nearest_def q_def)
next
  case False
  then show ?thesis using float_convert_exact [OF t k] by (simp add: nearest_def)
qed

lemma nearest_zero: "nearest t emin 0 = 0"
  by (simp add: nearest_def round_half_even_def)

lemma nearest_repr:
  assumes t: "0 < t"
  shows "\<exists>m j. nearest t emin r = of_int m * 2 powi j \<and> \<bar>m\<bar> \<le> 2 ^ t \<and> emin - int t + 1 \<le> j"
proof (cases "\<bar>r\<bar> < 2 powi emin")
  case True
  define q :: real where "q = 2 powi (emin - int t + 1)"
  note sq = subnormal_quantum [OF t, of emin, folded q_def]
  define m where "m = round_half_even (r / q)"
  have n: "nearest t emin r = of_int m * q"
    using True by (simp add: nearest_def q_def m_def)
  have "\<bar>of_int m * q\<bar> \<le> 2 ^ (t - 1) * q"
    using nearest_subnormal_bounds [OF t True] unfolding n sq(2) .
  then have "\<bar>real_of_int m\<bar> * q \<le> 2 ^ (t - 1) * q"
    using sq(1) by (simp add: abs_mult)
  then have "\<bar>real_of_int m\<bar> \<le> 2 ^ (t - 1)"
    using sq(1) by simp
  also have "\<dots> \<le> (2::real) ^ t" by (rule power_increasing) simp_all
  finally have "\<bar>real_of_int m\<bar> \<le> 2 ^ t" .
  then have "\<bar>m\<bar> \<le> 2 ^ t"
    by (metis of_int_abs of_int_le_iff of_int_numeral of_int_power)
  with n show ?thesis unfolding q_def by blast
next
  case False
  have "(0::real) < 2 powi emin" by (rule zero_less_power_int) simp
  with False have r0: "r \<noteq> 0" by auto
  from False have "emin \<le> \<lfloor>log 2 \<bar>r\<bar>\<rfloor>"
    by (intro binade_ge) simp
  then have "emin - int t + 1 \<le> \<lfloor>log 2 \<bar>r\<bar>\<rfloor> - int t + 1" by simp
  moreover have "nearest t emin r = of_int (round_half_even (r / 2 powi (\<lfloor>log 2 \<bar>r\<bar>\<rfloor> - int t + 1)))
      * 2 powi (\<lfloor>log 2 \<bar>r\<bar>\<rfloor> - int t + 1)"
    using False float_convert_nonzero [OF r0] by (simp add: nearest_def)
  ultimately show ?thesis
    using scaled_round_bound [OF r0 t] by blast
qed

lemma nearest_dyadic:
  assumes t: "0 < t" and m: "\<bar>m\<bar> \<le> 2 ^ t" and j: "emin - int t + 1 \<le> j"
  shows "nearest t emin (of_int m * 2 powi j) = of_int m * 2 powi j"
proof (cases "\<bar>m\<bar> < 2 ^ t")
  case True
  then show ?thesis by (rule nearest_exact [OF t _ j])
next
  case False
  with m have "\<bar>m\<bar> = 2 ^ t" by simp
  then consider "m = 2 ^ t" | "m = - (2 ^ t)" by (auto simp: abs_if split: if_splits)
  then show ?thesis
  proof cases
    case 1
    have "(of_int m * 2 powi j :: real) = of_int 1 * 2 powi (int t + j)"
      unfolding 1 using powi_split [of "int t" j] by simp
    moreover have "nearest t emin (of_int 1 * 2 powi (int t + j)) = of_int 1 * 2 powi (int t + j)"
      by (rule nearest_exact [OF t]) (use t j in simp_all)
    ultimately show ?thesis by simp
  next
    case 2
    have "(of_int m * 2 powi j :: real) = of_int (- 1) * 2 powi (int t + j)"
      unfolding 2 using powi_split [of "int t" j] by simp
    moreover have "nearest t emin (of_int (- 1) * 2 powi (int t + j)) = of_int (- 1) * 2 powi (int t + j)"
      by (rule nearest_exact [OF t]) (use t j in simp_all)
    ultimately show ?thesis by simp
  qed
qed

lemma nearest_idem:
  assumes t: "0 < t"
  shows "nearest t emin (nearest t emin r) = nearest t emin r"
proof -
  from nearest_repr [OF t, of emin r] obtain m j where
    "nearest t emin r = of_int m * 2 powi j" "\<bar>m\<bar> \<le> 2 ^ t" "emin - int t + 1 \<le> j" by blast
  then show ?thesis using nearest_dyadic [OF t, of m emin j] by simp
qed

lemma nearest_floor:
  assumes t: "0 < t" and e: "emin - int t + 1 \<le> 0"
  shows "nearest t emin (of_int \<lfloor>nearest t emin r\<rfloor>) = of_int \<lfloor>nearest t emin r\<rfloor>"
    and "\<bar>of_int \<lfloor>nearest t emin r\<rfloor> :: real\<bar> \<le> max \<bar>nearest t emin r\<bar> (2 ^ (t - 1))"
proof -
  from nearest_repr [OF t, of emin r] obtain m j where
    a: "nearest t emin r = of_int m * 2 powi j" and m: "\<bar>m\<bar> \<le> 2 ^ t" and j: "emin - int t + 1 \<le> j"
    by blast
  define a where "a = nearest t emin r"
  have both: "nearest t emin (of_int \<lfloor>a\<rfloor>) = of_int \<lfloor>a\<rfloor>
      \<and> \<bar>of_int \<lfloor>a\<rfloor> :: real\<bar> \<le> max \<bar>a\<bar> (2 ^ (t - 1))"
  proof (cases "0 \<le> j")
    case True
    have "(2::real) powi j = of_int (2 ^ nat j)" using True by (simp add: power_int_def)
    then have "a = of_int (m * 2 ^ nat j)" unfolding a_def a by simp
    then have eq: "of_int \<lfloor>a\<rfloor> = a" by (metis floor_of_int)
    have "nearest t emin a = a" unfolding a_def by (rule nearest_idem [OF t])
    then show ?thesis unfolding eq by simp
  next
    case False
    then have "(2::real) powi j \<le> 2 powi (- 1)"
      by (intro power_int_increasing) simp_all
    then have "(2::real) powi j \<le> 1 / 2" by (simp add: power_int_minus)
    moreover have mr: "\<bar>real_of_int m\<bar> \<le> 2 ^ t"
      using m by (metis of_int_abs of_int_le_iff of_int_numeral of_int_power)
    moreover have "(0::real) < 2 powi j" by (rule zero_less_power_int) simp
    ultimately have "\<bar>real_of_int m\<bar> * 2 powi j \<le> 2 ^ t * (1 / 2)"
      by (intro mult_mono) simp_all
    also have "(2::real) ^ t * (1 / 2) = 2 ^ (t - 1)"
      using t by (cases t) simp_all
    finally have "\<bar>a\<bar> \<le> 2 ^ (t - 1)"
      unfolding a_def a using \<open>(0::real) < 2 powi j\<close> by (simp add: abs_mult)
    then have "a \<le> of_int (2 ^ (t - 1))" "of_int (- (2 ^ (t - 1))) \<le> a" by simp_all
    then have "\<lfloor>a\<rfloor> \<le> 2 ^ (t - 1)" "- (2 ^ (t - 1)) \<le> \<lfloor>a\<rfloor>"
      by (simp_all only: floor_le_iff le_floor_iff)
    then have fl: "\<bar>\<lfloor>a\<rfloor>\<bar> \<le> 2 ^ (t - 1)" by linarith
    also have "(2::int) ^ (t - 1) < 2 ^ t" using t by (intro power_strict_increasing) simp_all
    finally have "\<bar>\<lfloor>a\<rfloor>\<bar> < 2 ^ t" .
    from nearest_exact [OF t this, of emin 0] e
    have "nearest t emin (of_int \<lfloor>a\<rfloor>) = of_int \<lfloor>a\<rfloor>" by simp
    moreover have "\<bar>of_int \<lfloor>a\<rfloor> :: real\<bar> \<le> 2 ^ (t - 1)"
      using fl by (metis of_int_abs of_int_le_iff of_int_numeral of_int_power)
    ultimately show ?thesis by simp
  qed
  then show "nearest t emin (of_int \<lfloor>nearest t emin r\<rfloor>) = of_int \<lfloor>nearest t emin r\<rfloor>"
    and "\<bar>of_int \<lfloor>nearest t emin r\<rfloor> :: real\<bar> \<le> max \<bar>nearest t emin r\<bar> (2 ^ (t - 1))"
    unfolding a_def by simp_all
qed

lemma floating_params:
  assumes "is_floating d"
  shows "0 < sig_bits d" and "2 \<le> sig_bits d"
    and "min_exp d - int (sig_bits d) + 1 \<le> - 1"
    and "int (sig_bits d) \<le> max_exp d"
    and "min_exp d \<le> - 14"
  using assms by (cases d; simp)+

lemma round_to_Fin_iff:
  "(round_to d r = Fin a)
     = (nearest (sig_bits d) (min_exp d) r = a \<and> \<bar>a\<bar> < 2 powi (max_exp d + 1))"
  by (auto simp: round_to_def round_format_def Let_def)

lemma round_to_not_NaN: "round_to d r \<noteq> NaN"
  by (simp add: round_to_def round_format_def Let_def)

lemma round_to_zero: "round_to d 0 = Fin 0"
  by (simp add: round_to_Fin_iff nearest_zero)

lemma round_to_exact:
  assumes d: "is_floating d"
    and k: "\<bar>k\<bar> \<le> 2 ^ sig_bits d"
    and j: "min_exp d - int (sig_bits d) + 1 \<le> j"
    and r: "\<bar>of_int k * 2 powi j :: real\<bar> < 2 powi (max_exp d + 1)"
  shows "round_to d (of_int k * 2 powi j) = Fin (of_int k * 2 powi j)"
  unfolding round_to_Fin_iff
  using nearest_dyadic [OF floating_params(1) [OF d] k j] r by simp

lemma round_to_int:
  assumes d: "is_floating d" and n: "\<bar>n\<bar> \<le> 2 ^ sig_bits d"
  shows "round_to d (of_int n) = Fin (of_int n)"
proof -
  have "\<bar>real_of_int n\<bar> \<le> 2 ^ sig_bits d"
    using n by (metis of_int_abs of_int_le_iff of_int_numeral of_int_power)
  also have "(2::real) ^ sig_bits d = 2 powi (int (sig_bits d))" by simp
  also have "\<dots> < 2 powi (max_exp d + 1)"
    using floating_params(4) [OF d] by (intro power_int_strict_increasing) simp_all
  finally have "\<bar>of_int n * 2 powi 0 :: real\<bar> < 2 powi (max_exp d + 1)" by simp
  from round_to_exact [OF d n _ this] floating_params(3) [OF d] show ?thesis by simp
qed

lemma round_to_idem:
  assumes d: "is_floating d" and a: "round_to d r = Fin a"
  shows "round_to d a = Fin a"
  using a nearest_idem [OF floating_params(1) [OF d], of "min_exp d" r]
  by (simp add: round_to_Fin_iff)

lemma round_to_between:
  assumes d: "is_floating d"
    and l: "round_to d l = Fin l" and u: "round_to d u = Fin u"
    and lr: "l \<le> r" and ru: "r \<le> u"
  shows "\<exists>a. round_to d r = Fin a \<and> l \<le> a \<and> a \<le> u"
proof -
  let ?n = "nearest (sig_bits d) (min_exp d)"
  note t = floating_params(1) [OF d]
  from l u have nl: "?n l = l" "\<bar>l\<bar> < 2 powi (max_exp d + 1)"
    and nu: "?n u = u" "\<bar>u\<bar> < 2 powi (max_exp d + 1)"
    by (simp_all add: round_to_Fin_iff)
  have "l \<le> ?n r" "?n r \<le> u"
    using nearest_mono [OF t lr, of "min_exp d"] nearest_mono [OF t ru, of "min_exp d"] nl nu
    by simp_all
  moreover from this nl nu have "\<bar>?n r\<bar> < 2 powi (max_exp d + 1)" by linarith
  ultimately show ?thesis by (simp add: round_to_Fin_iff)
qed

lemma round_to_floor:
  assumes d: "is_floating d" and a: "round_to d r = Fin a"
  shows "round_to d (of_int \<lfloor>a\<rfloor>) = Fin (of_int \<lfloor>a\<rfloor>)"
proof -
  let ?t = "sig_bits d"
  note t = floating_params(1) [OF d]
  from a have n: "nearest ?t (min_exp d) r = a" and b: "\<bar>a\<bar> < 2 powi (max_exp d + 1)"
    by (simp_all add: round_to_Fin_iff)
  have e: "min_exp d - int ?t + 1 \<le> 0" using floating_params(3) [OF d] by simp
  note fl = nearest_floor [OF t e, of r, unfolded n]
  have "(2::real) ^ (?t - 1) = 2 powi (int (?t - 1))" by simp
  also have "\<dots> < 2 powi (max_exp d + 1)"
    using floating_params(4) [OF d] by (intro power_int_strict_increasing) simp_all
  finally have "\<bar>of_int \<lfloor>a\<rfloor> :: real\<bar> < 2 powi (max_exp d + 1)"
    using fl(2) b by linarith
  with fl(1) show ?thesis
    unfolding round_to_Fin_iff [of d "of_int \<lfloor>a\<rfloor>"] by simp
qed

lemma round_to_positive:
  assumes d: "is_floating d" and r: "2 powi (min_exp d) \<le> r"
  shows "round_to d r = PInf \<or> (\<exists>a. round_to d r = Fin a \<and> 2 powi (min_exp d) \<le> a)"
proof -
  have "(0::real) < 2 powi (min_exp d)" by (rule zero_less_power_int) simp
  with r have "0 < r" by linarith
  with nearest_normal_pos [OF floating_params(1) [OF d] r]
  show ?thesis by (simp add: round_to_def round_format_def Let_def)
qed

lemma round_to_negative:
  assumes d: "is_floating d" and r: "r \<le> - (2 powi (min_exp d))"
  shows "round_to d r = NInf \<or> (\<exists>a. round_to d r = Fin a \<and> a \<le> - (2 powi (min_exp d)))"
proof -
  have "(0::real) < 2 powi (min_exp d)" by (rule zero_less_power_int) simp
  with r have "\<not> 0 < r" by linarith
  with nearest_normal_neg [OF floating_params(1) [OF d] r]
  show ?thesis by (simp add: round_to_def round_format_def Let_def)
qed

lemma nearest_normal:
  assumes "2 powi e \<le> \<bar>r\<bar>" and "\<bar>r\<bar> < 2 powi (e + 1)" and "emin \<le> e"
  shows "nearest t emin r
     = of_int (round_half_even (r / 2 powi (e - int t + 1))) * 2 powi (e - int t + 1)"
proof -
  have "(0::real) < 2 powi e" by (rule zero_less_power_int) simp
  with assms(1) have "0 < \<bar>r\<bar>" by linarith
  then have r0: "r \<noteq> 0" by simp
  have "(2::real) powi emin \<le> 2 powi e"
    using assms(3) by (intro power_int_increasing) simp_all
  with assms(1) have "\<not> \<bar>r\<bar> < 2 powi emin" by linarith
  then show ?thesis
    using float_convert_nonzero [OF r0, of t] binade_unique [OF assms(1,2)]
    by (simp add: nearest_def)
qed

lemma round_to_normal:
  assumes "2 powi e \<le> \<bar>r\<bar>" and "\<bar>r\<bar> < 2 powi (e + 1)" and "min_exp d \<le> e"
  shows "round_to d r
     = (let y = of_int (round_half_even (r / 2 powi (e - int (sig_bits d) + 1)))
                  * 2 powi (e - int (sig_bits d) + 1)
        in if 2 powi (max_exp d + 1) \<le> \<bar>y\<bar> then (if 0 < r then PInf else NInf) else Fin y)"
  unfolding round_to_def round_format_def nearest_normal [OF assms] ..

lemma round_half_even_minus: "round_half_even (- x) = - round_half_even x"
proof (cases "x \<in> \<int>")
  case True
  then obtain n where "x = of_int n" by (auto elim: Ints_cases)
  then have "- x = of_int (- n)" by simp
  then show ?thesis unfolding \<open>x = of_int n\<close> by (simp only: round_half_even_int)
next
  case False
  then have "x \<noteq> of_int \<lfloor>x\<rfloor>" by (metis Ints_of_int)
  then have "\<lceil>x\<rceil> = \<lfloor>x\<rfloor> + 1" by (simp add: ceiling_altdef)
  moreover have "\<lfloor>- x\<rfloor> = - \<lceil>x\<rceil>" by (simp add: ceiling_def)
  ultimately have f: "\<lfloor>- x\<rfloor> = - \<lfloor>x\<rfloor> - 1" by simp
  define d where "d = x - of_int \<lfloor>x\<rfloor>"
  have d: "- x - of_int \<lfloor>- x\<rfloor> = 1 - d" unfolding f d_def by simp
  have x: "x - of_int \<lfloor>x\<rfloor> = d" unfolding d_def ..
  show ?thesis
    unfolding round_half_even_def Let_def d x
    unfolding f
    by (cases "d < 1 / 2"; cases "1 / 2 < d") (auto simp: not_less)
qed

lemma float_convert_minus: "float_convert t (- r) = - float_convert t r"
  by (simp add: float_convert_def Let_def round_half_even_minus)

lemma nearest_minus: "nearest t emin (- r) = - nearest t emin r"
  by (simp add: nearest_def float_convert_minus round_half_even_minus)

lemma round_to_minus: "round_to d (- r) = jf_neg (round_to d r)"
proof (cases "r = 0")
  case True
  then show ?thesis by (simp add: round_to_zero)
next
  case False
  then show ?thesis
    by (simp add: round_to_def round_format_def Let_def nearest_minus)
qed

subsection \<open>Clip bounds\<close>

text \<open>
  For a precision from 0 to 23 every intermediate result of the two clip-bound methods
  is a binary64 number, so no operation rounds and the bounds are the exact ones.
\<close>

lemma fl64_exact: "\<bar>k\<bar> < 2 ^ 53 \<Longrightarrow> fl64 (of_int k * 2 powi j) = of_int k * 2 powi j"
  unfolding fl64_def by (rule float_convert_exact) simp_all

lemma pow2_nat: "0 \<le> p \<Longrightarrow> (2::real) powi p = of_int (2 ^ nat p)"
  by (simp add: power_int_def)

lemma pow2_bound: "0 \<le> p \<Longrightarrow> p \<le> 23 \<Longrightarrow> (2::int) ^ nat p \<le> 2 ^ 23"
  by (intro power_increasing) simp_all

lemma clip_bound_steps:
  assumes "0 \<le> p" and "p \<le> 23"
  shows "fl64 (2 powi p - 1) = 2 powi p - 1"
    and "fl64 ((2 powi p - 1) / 2) = (2 powi p - 1) / 2"
    and "fl64 ((2 powi p - 1) / 2 - 2 powi (p - 20)) = (2 powi p - 1) / 2 - 2 powi (p - 20)"
proof -
  define K :: int where "K = 2 ^ nat p"
  have K: "1 \<le> K" "K \<le> 2 ^ 23"
    unfolding K_def using pow2_bound [OF assms] by simp_all
  have p2: "(2::real) powi p = of_int K"
    unfolding K_def by (rule pow2_nat [OF assms(1)])
  have a: "\<bar>K - 1\<bar> < 2 ^ 53" using K by simp
  from fl64_exact [OF a, of 0] show "fl64 (2 powi p - 1) = 2 powi p - 1"
    unfolding p2 by simp
  from fl64_exact [OF a, of "- 1"] show "fl64 ((2 powi p - 1) / 2) = (2 powi p - 1) / 2"
    unfolding p2 by (simp add: field_simps)
  have b: "\<bar>(K - 1) * 2 ^ 19 - K\<bar> < 2 ^ 53" using K by simp
  have "(2::real) powi (p - 20) = 2 powi p * 2 powi (- 20)"
    using powi_split [of p "- 20"] by simp
  then have e: "(2::real) powi (p - 20) = of_int K / 2 ^ 20"
    unfolding p2 by simp
  have v: "(of_int K - 1) / 2 - of_int K / 2 ^ 20
          = (of_int ((K - 1) * 2 ^ 19 - K) * 2 powi (- 20) :: real)"
    by (simp add: field_simps)
  show "fl64 ((2 powi p - 1) / 2 - 2 powi (p - 20)) = (2 powi p - 1) / 2 - 2 powi (p - 20)"
    unfolding p2 e v by (rule fl64_exact [OF b])
qed

lemma get_clip_bound_Some:
  assumes "0 \<le> p" and "p \<le> 23"
  shows "get_clip_bound \<lparr>precision = Some p, stop_scale_gradient = s\<rparr> = Inr ((2 powi p - 1) / 2)"
  using assms by (simp add: get_clip_bound_def float_pow2_def Let_def clip_bound_steps)

lemma safe_clip_bound_Some:
  assumes "0 \<le> p" and "p \<le> 23"
  shows "safe_clip_bound \<lparr>precision = Some p, stop_scale_gradient = s\<rparr>
     = Inr ((2 powi p - 1) / 2 - 2 powi (p - 20))"
proof -
  have pos: "(0::real) < 2 powi (p - 20)"
    by (rule zero_less_power_int) simp
  have lt: "c - 2 powi (p - 20) < c" for c :: real
    using pos by linarith
  have eq: "-20 + p = p - 20"
    by simp
  have f: "float_pow2 (p - 20) = Inr (2 powi (p - 20))"
    using assms by (simp add: float_pow2_def)
  show ?thesis
    unfolding safe_clip_bound_def get_clip_bound_Some [OF assms]
    by (simp only: lt eq f Let_def sum.case option.case TensorQuantizer.simps if_True
        clip_bound_steps(3) [OF assms])
qed

text \<open>
  The assertion is not idle.  \<open>setup_layer\<close> accepts the precision \<open>-60\<close>; there
  \<^verbatim>\<open>2.0**-60 - 1.0\<close> rounds to \<open>-1.0\<close>, the clip bound is \<open>-0.5\<close>, and subtracting
  \<open>2 ^ -80\<close> from it rounds back to \<open>-0.5\<close>.
\<close>

lemma assertion_fires:
  "safe_clip_bound \<lparr>precision = Some (- 60), stop_scale_gradient = s\<rparr> = Inl AssertionError"
proof -
  have e1: "\<lfloor>log 2 \<bar>2 powi (- 60) - 1 :: real\<bar>\<rfloor> = - 1"
    by (rule binade_unique) simp_all
  have a: "fl64 (2 powi (- 60) - 1) = - 1"
    unfolding fl64_def float_convert_def Let_def e1
    by (simp add: round_half_even_def)
  have b: "fl64 (- 1 / 2) = - 1 / 2"
    using fl64_exact [of "- 1" "- 1"] by simp
  have e2: "\<lfloor>log 2 \<bar>- 1 / 2 - 2 powi (- 80) :: real\<bar>\<rfloor> = - 1"
    by (rule binade_unique) simp_all
  have c: "fl64 (- 1 / 2 - 2 powi (- 80)) = - 1 / 2"
    unfolding fl64_def float_convert_def Let_def e2
    by (simp add: round_half_even_def)
  have pw: "float_pow2 (- 60) = Inr (2 powi (- 60))" "float_pow2 (- 80) = Inr (2 powi (- 80))"
    by (simp_all add: float_pow2_def)
  have n: "(- 20 :: int) + - 60 = - 80" by simp
  show ?thesis
    unfolding safe_clip_bound_def get_clip_bound_def
    by (simp only: pw n a b c Let_def sum.case option.case TensorQuantizer.simps less_irrefl if_False)
qed

subsection \<open>The steps of \<open>to_quant\<close>\<close>

lemma weak_float_result_floating: "is_floating (weak_float_result d)"
  by (cases d) (simp_all add: weak_float_result_def)

lemma weak_float_result_idem: "weak_float_result (weak_float_result d) = weak_float_result d"
  by (cases d) (simp_all add: weak_float_result_def)

lemma weak_float_result_id: "is_floating d \<Longrightarrow> weak_float_result d = d"
  by (simp add: weak_float_result_def)

lemma dtype_convert_to: "dtype (convert_to x d) = d"
  by (simp add: convert_to_def astype_def)

lemma shape_convert_to: "shape (convert_to x d) = shape x"
  by (simp add: convert_to_def astype_def)

lemma length_convert_to: "length (elems (convert_to x d)) = length (elems x)"
  by (simp add: convert_to_def astype_def)

lemma convert_to_same: "convert_to x (dtype x) = x"
  by (simp add: convert_to_def)

lemma scalar_select_eq:
  "scalar_select f x c
     = tmap (\<lambda>v. f v (round_to (weak_float_result (dtype x)) c))
         (convert_to x (weak_float_result (dtype x)))"
  unfolding scalar_select_def Let_def ..

lemma scalar_arith_eq:
  "scalar_arith f x c
     = tmap (\<lambda>v. round_result (weak_float_result (dtype x))
                    (f v (round_to (weak_float_result (dtype x)) c)))
         (convert_to x (weak_float_result (dtype x)))"
  unfolding scalar_arith_def Let_def ..

lemma dtype_tmap: "dtype (tmap f x) = dtype x"
  by (simp add: tmap_def)

lemma tmap_tmap: "tmap f (tmap g x) = tmap (\<lambda>v. f (g v)) x"
  by (simp add: tmap_def)

lemma round_to_half: "is_floating d \<Longrightarrow> round_to d (1 / 2) = Fin (1 / 2)"
  using round_to_exact [of d 1 "- 1"] floating_params(3,4) [of d]
  by (cases d) (simp_all add: power_int_minus)

lemma round_result_idem:
  assumes "is_floating d"
  shows "round_result d (round_result d v) = round_result d v"
proof (cases v)
  case (Fin a)
  show ?thesis
  proof (cases "round_to d a")
    case (Fin b)
    from round_to_idem [OF assms this] Fin \<open>v = Fin a\<close> assms show ?thesis by simp
  qed (use Fin assms in simp_all)
qed simp_all

lemma pass_through_elem:
  assumes d: "is_floating d" and a: "round_result d a = a"
  shows "round_result d (jf_add (round_result d (jf_sub a a)) (jf_floor a))
     = (if is_inf a then NaN else jf_floor a)"
proof (cases a)
  case (Fin y)
  with a d have "round_to d y = Fin y" by simp
  from round_to_floor [OF d this] Fin d show ?thesis
    by (simp add: jf_sub_def round_to_zero)
qed (simp_all add: jf_sub_def)

lemma map2_same: "map2 f xs (map g xs) = map (\<lambda>x. f x (g x)) xs"
  by (induction xs) simp_all

lemma pass_through_floor:
  assumes d: "is_floating (dtype x)" and v: "\<forall>a\<in>set (elems x). round_result (dtype x) a = a"
  shows "pass_through x jnp_floor = tmap (\<lambda>a. if is_inf a then NaN else jf_floor a) x"
proof -
  let ?d = "dtype x"
  have j: "jnp_floor x = tmap jf_floor x"
    by (simp add: jnp_floor_def weak_float_result_id [OF d] convert_to_same)
  have s: "array_arith jf_sub x x = tmap (\<lambda>a. round_result ?d (jf_sub a a)) x"
    using map2_same [of "\<lambda>u v. round_result ?d (jf_sub u v)" "elems x" "\<lambda>a. a"]
    by (simp add: array_arith_def promote_types_def convert_to_same tmap_def)
  have "pass_through x jnp_floor
      = tmap (\<lambda>a. round_result ?d (jf_add (round_result ?d (jf_sub a a)) (jf_floor a))) x"
    unfolding pass_through_def stop_gradient_def j s
    using map2_same [of "\<lambda>u v. round_result ?d (jf_add u v)" "map (\<lambda>a. round_result ?d (jf_sub a a)) (elems x)"]
    by (simp add: array_arith_def promote_types_def convert_to_def tmap_def Let_def zip_map_map
        zip_same_conv_map)
  also have "\<dots> = tmap (\<lambda>a. if is_inf a then NaN else jf_floor a) x"
    unfolding tmap_def using v pass_through_elem [OF d] by (simp cong: map_cong)
  finally show ?thesis .
qed

lemma half_added_sum:
  "scalar_arith jf_add (jnp_clip x (- sb) sb) (1 / 2)
     = tmap (half_added (weak_float_result (dtype x)) sb)
         (convert_to x (weak_float_result (dtype x)))"
proof -
  let ?d = "weak_float_result (dtype x)"
  let ?x = "convert_to x ?d"
  have w: "weak_float_result ?d = ?d" by (rule weak_float_result_idem)
  have cc: "convert_to y ?d = y" if "dtype y = ?d" for y
    using that by (simp add: convert_to_def)
  have c: "jnp_clip x (- sb) sb = tmap (clip_elem ?d sb) ?x"
    unfolding jnp_clip_def Let_def scalar_select_eq dtype_tmap dtype_convert_to w
    by (simp only: cc dtype_tmap dtype_convert_to tmap_tmap clip_elem_def [abs_def])
  show ?thesis
    unfolding c scalar_arith_eq dtype_tmap dtype_convert_to w
    by (simp only: cc dtype_tmap dtype_convert_to tmap_tmap half_added_def [abs_def])
qed

lemma to_quant_elems:
  assumes sb: "safe_clip_bound \<lparr>precision = Some p, stop_scale_gradient = s\<rparr> = Inr sb"
  shows "to_quant \<lparr>precision = Some p, stop_scale_gradient = s\<rparr> x dt
     = Inr \<lparr>shape = shape x,
            elems = map (quant_elem (weak_float_result (dtype x)) sb dt)
                      (elems (convert_to x (weak_float_result (dtype x)))),
            dtype = dt\<rparr>"
proof -
  let ?d = "weak_float_result (dtype x)"
  let ?x = "convert_to x ?d"
  note fl = weak_float_result_floating [of "dtype x"]
  have dt: "dtype (tmap (half_added ?d sb) ?x) = ?d"
    by (simp add: tmap_def dtype_convert_to)
  have v: "\<forall>a\<in>set (elems (tmap (half_added ?d sb) ?x)). round_result ?d a = a"
    by (simp add: tmap_def half_added_def round_result_idem [OF fl])
  have pt: "pass_through (tmap (half_added ?d sb) ?x) jnp_floor
      = tmap (\<lambda>a. if is_inf a then NaN else jf_floor a) (tmap (half_added ?d sb) ?x)"
  proof (rule pass_through_floor)
    show "is_floating (dtype (tmap (half_added ?d sb) ?x))"
      unfolding dt by (rule fl)
    show "\<forall>a\<in>set (elems (tmap (half_added ?d sb) ?x)).
            round_result (dtype (tmap (half_added ?d sb) ?x)) a = a"
      unfolding dt by (rule v)
  qed
  have "to_quant \<lparr>precision = Some p, stop_scale_gradient = s\<rparr> x dt
      = Inr (astype (pass_through (scalar_arith jf_add (jnp_clip x (- sb) sb) (1 / 2)) jnp_floor) dt)"
    by (simp add: to_quant_def sb Let_def)
  also have "\<dots> = Inr (astype (tmap (\<lambda>a. if is_inf a then NaN else jf_floor a)
                               (tmap (half_added ?d sb) ?x)) dt)"
    unfolding half_added_sum pt ..
  also have "astype (tmap (\<lambda>a. if is_inf a then NaN else jf_floor a) (tmap (half_added ?d sb) ?x)) dt
      = \<lparr>shape = shape x, elems = map (quant_elem ?d sb dt) (elems ?x), dtype = dt\<rparr>"
    by (simp add: astype_def tmap_def dtype_convert_to shape_convert_to quant_elem_def Let_def)
  finally show ?thesis .
qed

lemma floor_of_sum:
  "astype (jnp_floor (scalar_arith jf_add (jnp_clip x (- sb) sb) (1 / 2))) dt
     = \<lparr>shape = shape x,
        elems = map (\<lambda>v. convert_element_type (weak_float_result (dtype x)) dt
                           (jf_floor (half_added (weak_float_result (dtype x)) sb v)))
                  (elems (convert_to x (weak_float_result (dtype x)))),
        dtype = dt\<rparr>"
proof -
  let ?d = "weak_float_result (dtype x)"
  let ?x = "convert_to x ?d"
  have dt: "dtype (tmap (half_added ?d sb) ?x) = ?d"
    by (simp add: tmap_def dtype_convert_to)
  have cc: "convert_to y ?d = y" if "dtype y = ?d" for y
    using that by (simp add: convert_to_def)
  have "jnp_floor (tmap (half_added ?d sb) ?x) = tmap jf_floor (tmap (half_added ?d sb) ?x)"
    unfolding jnp_floor_def dt weak_float_result_idem
    by (simp only: cc [OF dt])
  then show ?thesis
    unfolding half_added_sum
    by (simp add: astype_def tmap_def dtype_convert_to shape_convert_to)
qed

subsection \<open>Clip, round, convert\<close>

lemma half_grid:
  assumes "1 \<le> p"
  shows "(2::real) powi p = 2 * 2 powi (p - 1)"
  using powi_split [of 1 "p - 1"] by simp

lemma safe_bound_bounds:
  assumes "1 \<le> p"
  shows "0 < ((2 powi p - 1) / 2 - 2 powi (p - 20) :: real)"
    and "((2 powi p - 1) / 2 - 2 powi (p - 20) :: real) \<le> 2 powi (p - 1)"
proof -
  define P :: real where "P = 2 powi (p - 1)"
  have "(2::real) powi 0 \<le> 2 powi (p - 1)"
    using assms by (intro power_int_increasing) simp_all
  then have P1: "1 \<le> P" unfolding P_def by simp
  have "(2::real) powi (p - 20) \<le> 2 powi (p - 3)"
    by (intro power_int_increasing) simp_all
  moreover have "(2::real) powi (p - 1) = 4 * 2 powi (p - 3)"
    using powi_split [of 2 "p - 3"] by simp
  ultimately have e: "2 powi (p - 20) \<le> P / 4" unfolding P_def by simp
  have pos: "(0::real) < 2 powi (p - 20)" by (rule zero_less_power_int) simp
  have g: "(2::real) powi p = 2 * P" unfolding P_def by (rule half_grid [OF assms])
  show "0 < ((2 powi p - 1) / 2 - 2 powi (p - 20) :: real)"
    unfolding g using P1 e by argo
  show "((2 powi p - 1) / 2 - 2 powi (p - 20) :: real) \<le> 2 powi (p - 1)"
    unfolding g P_def [symmetric] using pos by argo
qed

lemma round_to_small_multiple:
  assumes d: "is_floating d" and k: "\<bar>k\<bar> \<le> 3" and j: "- 1 \<le> j" "j + 2 \<le> max_exp d + 1"
  shows "round_to d (of_int k * 2 powi j) = Fin (of_int k * 2 powi j)"
proof (rule round_to_exact [OF d])
  have "(4::int) \<le> 2 ^ sig_bits d"
    using power_increasing [of 2 "sig_bits d" "2::int"] floating_params(2) [OF d] by simp
  with k show "\<bar>k\<bar> \<le> 2 ^ sig_bits d" by linarith
  show "min_exp d - int (sig_bits d) + 1 \<le> j"
    using floating_params(3) [OF d] j(1) by linarith
  have pos: "(0::real) < 2 powi j" by (rule zero_less_power_int) simp
  have "\<bar>real_of_int k\<bar> \<le> 3" using k by linarith
  then have "\<bar>real_of_int k\<bar> * 2 powi j \<le> 3 * 2 powi j"
    by (rule mult_right_mono) (use pos in simp)
  also have "\<dots> < 4 * 2 powi j" using pos by simp
  also have "\<dots> = 2 powi (j + 2)" using powi_split [of 2 j] by (simp add: add.commute)
  also have "\<dots> \<le> 2 powi (max_exp d + 1)"
    using j(2) by (intro power_int_increasing) simp_all
  finally show "\<bar>of_int k * 2 powi j :: real\<bar> < 2 powi (max_exp d + 1)"
    using pos by (simp add: abs_mult)
qed

lemma round_to_power:
  assumes d: "is_floating d" and j: "- 1 \<le> j" "j \<le> max_exp d"
  shows "round_to d (2 powi j) = Fin (2 powi j)"
    and "round_to d (- (2 powi j)) = Fin (- (2 powi j))"
proof -
  have "(1::int) \<le> 2 ^ sig_bits d" by simp
  then have k: "\<bar>1::int\<bar> \<le> 2 ^ sig_bits d" by simp
  have e: "min_exp d - int (sig_bits d) + 1 \<le> j"
    using floating_params(3) [OF d] j(1) by linarith
  have pos: "(0::real) < 2 powi j" by (rule zero_less_power_int) simp
  have "(2::real) powi j < 2 powi (max_exp d + 1)"
    using j(2) by (intro power_int_strict_increasing) simp_all
  then have "\<bar>of_int 1 * 2 powi j :: real\<bar> < 2 powi (max_exp d + 1)"
    using pos by simp
  from round_to_exact [OF d k e this] show "round_to d (2 powi j) = Fin (2 powi j)" by simp
  then show "round_to d (- (2 powi j)) = Fin (- (2 powi j))"
    by (simp add: round_to_minus)
qed

lemma bound_finite:
  assumes d: "is_floating d" and p: "1 \<le> p" "p \<le> max_exp d + 1"
    and sb: "0 \<le> sb" "sb \<le> 2 powi (p - 1)"
  shows "\<exists>B. round_to d sb = Fin B \<and> 0 \<le> B \<and> B \<le> 2 powi (p - 1)"
proof -
  have u: "round_to d (2 powi (p - 1)) = Fin (2 powi (p - 1))"
    by (rule round_to_power [OF d]) (use p in simp_all)
  from round_to_between [OF d round_to_zero u sb] show ?thesis .
qed

lemma clip_elem_cases:
  assumes B: "round_to d sb = Fin B" "0 \<le> B"
  shows "clip_elem d sb v = NaN \<or> (\<exists>c. clip_elem d sb v = Fin c \<and> - B \<le> c \<and> c \<le> B)"
  using B by (cases v) (auto simp: clip_elem_def round_to_minus)

lemma half_added_cases:
  assumes d: "is_floating d" and p: "1 \<le> p" "p \<le> max_exp d + 1"
    and B: "round_to d sb = Fin B" "0 \<le> B" "B \<le> 2 powi (p - 1)"
  shows "half_added d sb v = NaN
     \<or> (\<exists>c a. clip_elem d sb v = Fin c \<and> - B \<le> c \<and> c \<le> B
              \<and> half_added d sb v = Fin a \<and> round_to d (c + 1 / 2) = Fin a
              \<and> - (2 powi (p - 1)) \<le> a \<and> a \<le> 3 * 2 powi (p - 2))"
proof -
  from clip_elem_cases [OF B(1,2), of v] consider "clip_elem d sb v = NaN"
    | c where "clip_elem d sb v = Fin c" "- B \<le> c" "c \<le> B" by blast
  then show ?thesis
  proof cases
    case 1
    then show ?thesis by (simp add: half_added_def)
  next
    case 2
    have l: "round_to d (- (2 powi (p - 1))) = Fin (- (2 powi (p - 1)))"
      by (rule round_to_power [OF d]) (use p in simp_all)
    have u: "round_to d (3 * 2 powi (p - 2)) = Fin (3 * 2 powi (p - 2))"
      using round_to_small_multiple [OF d, of 3 "p - 2"] p by simp
    have "(2::real) powi (- 1) \<le> 2 powi (p - 2)"
      using p(1) by (intro power_int_increasing) simp_all
    then have h: "1 / 2 \<le> (2::real) powi (p - 2)" by (simp add: power_int_minus)
    have g: "(2::real) powi (p - 1) = 2 * 2 powi (p - 2)"
      using powi_split [of 1 "p - 2"] by simp
    have "- (2 powi (p - 1)) \<le> c + 1 / 2" "c + 1 / 2 \<le> 3 * 2 powi (p - 2)"
      using 2 B h unfolding g by linarith+
    from round_to_between [OF d l u this] obtain a where
      a: "round_to d (c + 1 / 2) = Fin a" "- (2 powi (p - 1)) \<le> a" "a \<le> 3 * 2 powi (p - 2)"
      by blast
    have "half_added d sb v = Fin a"
      using a(1) d by (simp add: half_added_def 2(1) round_to_half)
    with 2 a show ?thesis by blast
  qed
qed

lemma quant_elem_no_infinity:
  assumes d: "is_floating d" and p: "1 \<le> p" "p \<le> max_exp d + 1"
    and sb: "0 \<le> sb" "sb \<le> 2 powi (p - 1)"
  shows "quant_elem d sb dt v = convert_element_type d dt (jf_floor (half_added d sb v))"
proof -
  from bound_finite [OF d p sb] obtain B where
    B: "round_to d sb = Fin B" "0 \<le> B" "B \<le> 2 powi (p - 1)" by blast
  from half_added_cases [OF d p B, of v] have "\<not> is_inf (half_added d sb v)" by auto
  then show ?thesis by (simp add: quant_elem_def Let_def)
qed

lemma quant_elem_exact:
  assumes d: "is_floating d" and sb: "round_to d sb = Fin sb"
    and s: "round_to d (min sb (max (- sb) v) + 1 / 2) = Fin (min sb (max (- sb) v) + 1 / 2)"
  shows "quant_elem d sb dt (Fin v)
     = convert_element_type d dt (Fin (of_int (round_half_up_clipped sb v)))"
  using d s
  by (simp add: quant_elem_def half_added_def clip_elem_def round_to_minus sb round_to_half
      round_half_up_clipped_def Let_def)

lemma safe_bound_8:
  "safe_clip_bound \<lparr>precision = Some 8, stop_scale_gradient = s\<rparr> = Inr (522239 / 4096)"
  using safe_clip_bound_Some [of 8 s] by simp

lemma float32_bound_8: "round_to Float32 (522239 / 4096) = Fin (522239 / 4096)"
  using round_to_exact [of Float32 522239 "- 12"] by (simp add: power_int_minus)

lemma bfloat16_bound_8: "round_to BFloat16 (522239 / 4096) = Fin (255 / 2)"
  by (subst round_to_normal [where e = 6]) (simp_all add: round_half_even_def power_int_minus)

text \<open>
  C1 does not hold in exact arithmetic.  The sum \<^verbatim>\<open>x + 0.5\<close> is rounded to the element
  type of \<open>x\<close>: the \<^verbatim>\<open>float32\<close> number next below 0.5 gives the sum 1, and the result 1
  where round half up gives 0.  And the clip is against the safe bound as the element
  type of \<open>x\<close> holds it: \<^verbatim>\<open>bfloat16\<close> holds the safe bound of precision 8 as 127.5, the
  clip bound itself, so 127.5 passes the clip and gives 128 where the formula gives
  127.
\<close>

theorem to_quant_rounds_in_element_type:
  "to_quant \<lparr>precision = Some 8, stop_scale_gradient = False\<rparr>
      \<lparr>shape = [1], elems = [Fin (16777215 / 33554432)], dtype = Float32\<rparr> Float32
     = Inr \<lparr>shape = [1], elems = [Fin 1], dtype = Float32\<rparr>
   \<and> round_half_up_clipped (522239 / 4096) (16777215 / 33554432) = 0
   \<and> to_quant \<lparr>precision = Some 8, stop_scale_gradient = False\<rparr>
      \<lparr>shape = [1], elems = [Fin (255 / 2)], dtype = BFloat16\<rparr> Int32
     = Inr \<lparr>shape = [1], elems = [Fin 128], dtype = Int32\<rparr>
   \<and> round_half_up_clipped (522239 / 4096) (255 / 2) = 127
   \<and> safe_clip_bound \<lparr>precision = Some 8, stop_scale_gradient = False\<rparr> = Inr (522239 / 4096)"
proof -
  have s1: "round_to Float32 (33554431 / 33554432) = Fin 1"
    by (subst round_to_normal [where e = "- 1"]) (simp_all add: round_half_even_def power_int_minus)
  have o1: "round_to Float32 1 = Fin 1"
    using round_to_int [of Float32 1] by simp
  have q1: "quant_elem Float32 (522239 / 4096) Float32 (Fin (16777215 / 33554432)) = Fin 1"
    by (simp add: quant_elem_def half_added_def clip_elem_def round_to_minus float32_bound_8
        round_to_half s1 o1 convert_element_type_def Let_def)
  have a: "to_quant \<lparr>precision = Some 8, stop_scale_gradient = False\<rparr>
      \<lparr>shape = [1], elems = [Fin (16777215 / 33554432)], dtype = Float32\<rparr> Float32
     = Inr \<lparr>shape = [1], elems = [Fin 1], dtype = Float32\<rparr>"
    unfolding to_quant_elems [OF safe_bound_8]
    by (simp add: weak_float_result_def convert_to_def q1)
  have s2: "round_to BFloat16 128 = Fin 128"
    using round_to_int [of BFloat16 128] by simp
  have q2: "quant_elem BFloat16 (522239 / 4096) Int32 (Fin (255 / 2)) = Fin 128"
    by (simp add: quant_elem_def half_added_def clip_elem_def round_to_minus bfloat16_bound_8
        round_to_half s2 convert_element_type_def Let_def int_min_def int_max_def trunc_def)
  have b: "to_quant \<lparr>precision = Some 8, stop_scale_gradient = False\<rparr>
      \<lparr>shape = [1], elems = [Fin (255 / 2)], dtype = BFloat16\<rparr> Int32
     = Inr \<lparr>shape = [1], elems = [Fin 128], dtype = Int32\<rparr>"
    unfolding to_quant_elems [OF safe_bound_8]
    by (simp add: weak_float_result_def convert_to_def q2)
  have c: "round_half_up_clipped (522239 / 4096) (16777215 / 33554432) = 0"
    "round_half_up_clipped (522239 / 4096) (255 / 2) = 127"
    by (simp_all add: round_half_up_clipped_def)
  from a b c safe_bound_8 [of False] show ?thesis by simp
qed

text \<open>
  C1, amended.  With a precision \<open>p\<close> present, \<open>to_quant x dtype\<close> raises what
  \<^verbatim>\<open>_safe_clip_bound\<close> raises, and otherwise it is, element by element, the clip of \<open>x\<close> to
  the safe clip bound as the element type of \<open>x\<close> holds it, then the sum with 0.5
  rounded to that type, then the floor, then the conversion to \<open>dtype\<close> (\<open>quant_elem\<close>;
  the element type of an integer \<open>x\<close> is first made \<^verbatim>\<open>float32\<close>).  For a precision from 1
  to 23 that the element type has room for (all of them but for \<^verbatim>\<open>float16\<close>, which
  has room up to 16), that is the array expression
  \<^verbatim>\<open>floor(clip(x, -b, b) + 0.5).astype(dtype)\<close> with \<open>b = (2 ^ p - 1) / 2 - 2 ^ (p - 20)\<close>.
  And an element agrees with the exact formula, the clip to the safe bound and round
  half up, wherever the element type holds the safe bound and the sum exactly.
\<close>

theorem to_quant_clip_round_cast:
  "to_quant \<lparr>precision = Some p, stop_scale_gradient = s\<rparr> x dt
     = (case safe_clip_bound \<lparr>precision = Some p, stop_scale_gradient = s\<rparr> of
          Inl e \<Rightarrow> Inl e
        | Inr sb \<Rightarrow>
            Inr \<lparr>shape = shape x,
                 elems = map (quant_elem (weak_float_result (dtype x)) sb dt)
                           (elems (convert_to x (weak_float_result (dtype x)))),
                 dtype = dt\<rparr>)
   \<and> (0 \<le> p \<and> p \<le> 23 \<longrightarrow>
        safe_clip_bound \<lparr>precision = Some p, stop_scale_gradient = s\<rparr>
          = Inr ((2 powi p - 1) / 2 - 2 powi (p - 20)))
   \<and> (1 \<le> p \<and> p \<le> 23 \<and> p \<le> max_exp (weak_float_result (dtype x)) + 1 \<longrightarrow>
        to_quant \<lparr>precision = Some p, stop_scale_gradient = s\<rparr> x dt
          = Inr (astype (jnp_floor (scalar_arith jf_add
                   (jnp_clip x (- ((2 powi p - 1) / 2 - 2 powi (p - 20)))
                      ((2 powi p - 1) / 2 - 2 powi (p - 20))) (1 / 2))) dt))
   \<and> (is_floating d \<and> round_to d b = Fin b
        \<and> round_to d (min b (max (- b) v) + 1 / 2) = Fin (min b (max (- b) v) + 1 / 2) \<longrightarrow>
        quant_elem d b dt (Fin v)
          = convert_element_type d dt (Fin (of_int (round_half_up_clipped b v))))"
proof (intro conjI impI)
  show "to_quant \<lparr>precision = Some p, stop_scale_gradient = s\<rparr> x dt
     = (case safe_clip_bound \<lparr>precision = Some p, stop_scale_gradient = s\<rparr> of
          Inl e \<Rightarrow> Inl e
        | Inr sb \<Rightarrow>
            Inr \<lparr>shape = shape x,
                 elems = map (quant_elem (weak_float_result (dtype x)) sb dt)
                           (elems (convert_to x (weak_float_result (dtype x)))),
                 dtype = dt\<rparr>)"
  proof (cases "safe_clip_bound \<lparr>precision = Some p, stop_scale_gradient = s\<rparr>")
    case (Inl e)
    then show ?thesis by (simp add: to_quant_def)
  next
    case (Inr sb)
    from to_quant_elems [OF Inr] Inr show ?thesis by simp
  qed
next
  assume "0 \<le> p \<and> p \<le> 23"
  then show "safe_clip_bound \<lparr>precision = Some p, stop_scale_gradient = s\<rparr>
          = Inr ((2 powi p - 1) / 2 - 2 powi (p - 20))"
    by (simp add: safe_clip_bound_Some)
next
  let ?d = "weak_float_result (dtype x)"
  let ?b = "(2 powi p - 1) / 2 - 2 powi (p - 20) :: real"
  assume a: "1 \<le> p \<and> p \<le> 23 \<and> p \<le> max_exp ?d + 1"
  then have sb: "safe_clip_bound \<lparr>precision = Some p, stop_scale_gradient = s\<rparr> = Inr ?b"
    by (simp add: safe_clip_bound_Some)
  from a have p: "1 \<le> p" "p \<le> max_exp ?d + 1" by simp_all
  have b: "0 \<le> ?b" "?b \<le> 2 powi (p - 1)"
    using safe_bound_bounds [OF p(1)] by simp_all
  have "quant_elem ?d ?b dt = (\<lambda>v. convert_element_type ?d dt (jf_floor (half_added ?d ?b v)))"
    by (rule ext) (rule quant_elem_no_infinity [OF weak_float_result_floating p b])
  then show "to_quant \<lparr>precision = Some p, stop_scale_gradient = s\<rparr> x dt
          = Inr (astype (jnp_floor (scalar_arith jf_add (jnp_clip x (- ?b) ?b) (1 / 2))) dt)"
    unfolding to_quant_elems [OF sb] floor_of_sum by simp
next
  assume "is_floating d \<and> round_to d b = Fin b
        \<and> round_to d (min b (max (- b) v) + 1 / 2) = Fin (min b (max (- b) v) + 1 / 2)"
  then show "quant_elem d b dt (Fin v)
          = convert_element_type d dt (Fin (of_int (round_half_up_clipped b v)))"
    by (intro quant_elem_exact) simp_all
qed

theorem to_quant_clip_round_cast_witness:
  "(0::int) \<le> 8 \<and> (8::int) \<le> 23 \<and> (1::int) \<le> 8
   \<and> 8 \<le> max_exp (weak_float_result Float32) + 1
   \<and> is_floating Float32
   \<and> round_to Float32 (522239 / 4096) = Fin (522239 / 4096)
   \<and> round_to Float32 (min (522239 / 4096) (max (- (522239 / 4096)) (- 200)) + 1 / 2)
       = Fin (min (522239 / 4096) (max (- (522239 / 4096)) (- 200)) + 1 / 2)
   \<and> safe_clip_bound \<lparr>precision = Some 8, stop_scale_gradient = False\<rparr> = Inr (522239 / 4096)
   \<and> to_quant \<lparr>precision = Some 8, stop_scale_gradient = False\<rparr>
        \<lparr>shape = [3], elems = [Fin 3, Fin (- 200), Fin 0], dtype = Float32\<rparr> BFloat16
       = Inr \<lparr>shape = [3], elems = [Fin 3, Fin (- 127), Fin 0], dtype = BFloat16\<rparr>
   \<and> Inr \<lparr>shape = [3], elems = [Fin 3, Fin (- 127), Fin 0], dtype = BFloat16\<rparr>
       = (Inr (astype (jnp_floor (scalar_arith jf_add
            (jnp_clip \<lparr>shape = [3], elems = [Fin 3, Fin (- 200), Fin 0], dtype = Float32\<rparr>
               (- (522239 / 4096)) (522239 / 4096)) (1 / 2))) BFloat16) :: error + JTensor)
   \<and> quant_elem Float32 (522239 / 4096) BFloat16 (Fin (- 200)) = Fin (- 127)
   \<and> convert_element_type Float32 BFloat16
         (Fin (of_int (round_half_up_clipped (522239 / 4096) (- 200)))) = Fin (- 127)"
proof -
  have r3: "round_to Float32 (7 / 2) = Fin (7 / 2)"
    using round_to_exact [of Float32 7 "- 1"] by (simp add: power_int_minus)
  have rm: "round_to Float32 (520191 / 4096) = Fin (520191 / 4096)"
    using round_to_exact [of Float32 520191 "- 12"] by (simp add: power_int_minus)
  have c3: "round_to BFloat16 3 = Fin 3"
    using round_to_int [of BFloat16 3] by simp
  have cm: "round_to BFloat16 127 = Fin 127"
    using round_to_int [of BFloat16 127] by simp
  have q3: "quant_elem Float32 (522239 / 4096) BFloat16 (Fin 3) = Fin 3"
    by (simp add: quant_elem_def half_added_def clip_elem_def round_to_minus float32_bound_8
        round_to_half r3 c3 convert_element_type_def Let_def)
  have qm: "quant_elem Float32 (522239 / 4096) BFloat16 (Fin (- 200)) = Fin (- 127)"
    by (simp add: quant_elem_def half_added_def clip_elem_def round_to_minus float32_bound_8
        round_to_half rm cm convert_element_type_def Let_def)
  have q0: "quant_elem Float32 (522239 / 4096) BFloat16 (Fin 0) = Fin 0"
    by (simp add: quant_elem_def half_added_def clip_elem_def round_to_minus float32_bound_8
        round_to_half round_to_zero convert_element_type_def Let_def)
  have s: "round_to Float32 (min (522239 / 4096) (max (- (522239 / 4096)) (- 200)) + 1 / 2)
       = Fin (min (522239 / 4096) (max (- (522239 / 4096)) (- 200)) + 1 / 2)"
    by (simp add: round_to_minus rm)
  have w: "weak_float_result Float32 = Float32"
    by (simp add: weak_float_result_def)
  have cv: "convert_to \<lparr>shape = [3], elems = [Fin 3, Fin (- 200), Fin 0], dtype = Float32\<rparr> Float32
      = \<lparr>shape = [3], elems = [Fin 3, Fin (- 200), Fin 0], dtype = Float32\<rparr>"
    by (simp add: convert_to_def)
  have p: "(2 powi 8 - 1) / 2 - 2 powi (8 - 20) = (522239 / 4096 :: real)"
    by (simp add: power_int_minus)
  let ?x = "\<lparr>shape = [3], elems = [Fin 3, Fin (- 200), Fin 0], dtype = Float32\<rparr>"
  note th = to_quant_clip_round_cast [of 8 False ?x BFloat16 Float32 "522239 / 4096" "- 200",
      unfolded safe_bound_8 p]
  note t1 = th [THEN conjunct1]
  note t3 = th [THEN conjunct2, THEN conjunct2, THEN conjunct1]
  note t4 = th [THEN conjunct2, THEN conjunct2, THEN conjunct2]
  from t1 have a: "to_quant \<lparr>precision = Some 8, stop_scale_gradient = False\<rparr> ?x BFloat16
       = Inr \<lparr>shape = [3], elems = [Fin 3, Fin (- 127), Fin 0], dtype = BFloat16\<rparr>"
    by (simp add: w cv q3 qm q0)
  have "(1::int) \<le> 8 \<and> (8::int) \<le> 23 \<and> 8 \<le> max_exp (weak_float_result (dtype ?x)) + 1"
    by (simp add: w)
  from t3 [THEN mp, OF this]
  have b: "Inr \<lparr>shape = [3], elems = [Fin 3, Fin (- 127), Fin 0], dtype = BFloat16\<rparr>
       = (Inr (astype (jnp_floor (scalar_arith jf_add
            (jnp_clip ?x (- (522239 / 4096)) (522239 / 4096)) (1 / 2))) BFloat16) :: error + JTensor)"
    unfolding a .
  have "is_floating Float32 \<and> round_to Float32 (522239 / 4096) = Fin (522239 / 4096)
      \<and> round_to Float32 (min (522239 / 4096) (max (- (522239 / 4096)) (- 200)) + 1 / 2)
          = Fin (min (522239 / 4096) (max (- (522239 / 4096)) (- 200)) + 1 / 2)"
    using float32_bound_8 s by simp
  from t4 [THEN mp, OF this]
  have c: "convert_element_type Float32 BFloat16
         (Fin (of_int (round_half_up_clipped (522239 / 4096) (- 200)))) = Fin (- 127)"
    unfolding qm by (rule sym)
  show ?thesis
  proof (intro conjI)
    show "(0::int) \<le> 8" "(8::int) \<le> 23" "(1::int) \<le> 8" "is_floating Float32"
      by simp_all
    show "8 \<le> max_exp (weak_float_result Float32) + 1" by (simp add: w)
    show "round_to Float32 (522239 / 4096) = Fin (522239 / 4096)" by (rule float32_bound_8)
    show "safe_clip_bound \<lparr>precision = Some 8, stop_scale_gradient = False\<rparr> = Inr (522239 / 4096)"
      by (rule safe_bound_8)
    show "round_to Float32 (min (522239 / 4096) (max (- (522239 / 4096)) (- 200)) + 1 / 2)
       = Fin (min (522239 / 4096) (max (- (522239 / 4096)) (- 200)) + 1 / 2)"
      by (rule s)
    show "to_quant \<lparr>precision = Some 8, stop_scale_gradient = False\<rparr> ?x BFloat16
       = Inr \<lparr>shape = [3], elems = [Fin 3, Fin (- 127), Fin 0], dtype = BFloat16\<rparr>"
      by (rule a)
    show "Inr \<lparr>shape = [3], elems = [Fin 3, Fin (- 127), Fin 0], dtype = BFloat16\<rparr>
       = (Inr (astype (jnp_floor (scalar_arith jf_add
            (jnp_clip ?x (- (522239 / 4096)) (522239 / 4096)) (1 / 2))) BFloat16) :: error + JTensor)"
      by (rule b)
    show "quant_elem Float32 (522239 / 4096) BFloat16 (Fin (- 200)) = Fin (- 127)"
      by (rule qm)
    show "convert_element_type Float32 BFloat16
         (Fin (of_int (round_half_up_clipped (522239 / 4096) (- 200)))) = Fin (- 127)"
      by (rule c)
  qed
qed

subsection \<open>The disabled quantizer\<close>

text \<open>
  C5.  Without a precision, \<open>to_quant x dtype\<close> is \<open>x\<close> converted to \<open>dtype\<close> and nothing
  else, and \<open>get_quant_scale\<close> returns the array of shape \<open>(1, ..., 1)\<close>, one axis for
  each axis of \<open>x\<close>, whose single element is 1; \<open>contract_dims\<close> is not looked at.
\<close>

theorem disabled_is_identity:
  "to_quant \<lparr>precision = None, stop_scale_gradient = s\<rparr> x dt = Inr (astype x dt)
   \<and> get_quant_scale \<lparr>precision = None, stop_scale_gradient = s\<rparr> x contract_dims dt
        = Inr \<lparr>shape = replicate (ndim x) 1, elems = [Fin 1], dtype = dt\<rparr>"
  by (simp add: to_quant_def get_quant_scale_def jnp_ones_def)

subsection \<open>Validation at construction\<close>

text \<open>
  C4.  A quantizer with precision 24 is rejected by \<open>setup_layer\<close>, one with precision 23 or with
  no precision is accepted, and a precision above 23 is the only thing \<open>setup_layer\<close> rejects
  (the rejection is Python's \<open>AssertionError\<close>, which the specification calls
  ConfigError).
\<close>

theorem setup_rejects_only_above_23:
  "setup_layer \<lparr>precision = Some 24, stop_scale_gradient = s\<rparr> = Inl AssertionError
   \<and> setup_layer \<lparr>precision = Some 23, stop_scale_gradient = s\<rparr> = Inr ()
   \<and> setup_layer \<lparr>precision = None, stop_scale_gradient = s\<rparr> = Inr ()
   \<and> (\<forall>self. (setup_layer self \<noteq> Inr ()) = (\<exists>p. precision self = Some p \<and> 23 < p))
   \<and> (\<forall>self. setup_layer self = Inr () \<or> setup_layer self = Inl AssertionError)"
  by (auto simp: setup_layer_def split: option.splits)

text \<open>
  C7.  For every valid precision \<open>1 \<le> p \<le> 23\<close> the safe clip bound is the clip bound
  minus \<open>2 ^ (p - 20)\<close>, both computed without rounding; it is strictly below the clip
  bound, and so the assertion in \<^verbatim>\<open>_safe_clip_bound\<close> does not fire.
\<close>

theorem safe_clip_bound_strict:
  assumes "1 \<le> p" and "p \<le> 23"
  shows "\<exists>cb sb. get_clip_bound \<lparr>precision = Some p, stop_scale_gradient = s\<rparr> = Inr cb
           \<and> safe_clip_bound \<lparr>precision = Some p, stop_scale_gradient = s\<rparr> = Inr sb
           \<and> cb = (2 powi p - 1) / 2
           \<and> sb = cb - 2 powi (p - 20)
           \<and> sb < cb"
proof -
  have p: "0 \<le> p" "p \<le> 23"
    using assms by simp_all
  have "(0::real) < 2 powi (p - 20)"
    by (rule zero_less_power_int) simp
  then have "(2 powi p - 1) / 2 - 2 powi (p - 20) < ((2 powi p - 1) / 2 :: real)"
    by linarith
  then show ?thesis
    unfolding get_clip_bound_Some [OF p] safe_clip_bound_Some [OF p] by blast
qed

theorem safe_clip_bound_strict_witness:
  "(1::int) \<le> 8 \<and> (8::int) \<le> 23
   \<and> get_clip_bound \<lparr>precision = Some 8, stop_scale_gradient = False\<rparr> = Inr (255 / 2)
   \<and> safe_clip_bound \<lparr>precision = Some 8, stop_scale_gradient = False\<rparr>
        = Inr (255 / 2 - 1 / 4096)
   \<and> (255 / 2 - 1 / 4096 :: real) < 255 / 2"
  using safe_clip_bound_strict [of 8 False] by auto

subsection \<open>Precision zero\<close>

lemma div_zero_not_finite: "\<not> is_finite (jf_div v (Fin 0))"
  by (cases v) simp_all

lemma not_finite_simps:
  assumes "\<not> is_finite v"
  shows "jf_add v (Fin e) = v" and "round_result d v = v" and "\<not> jf_eq v (Fin 0)"
  using assms by (cases v; simp)+

lemma where_not_finite:
  "\<forall>v\<in>set ys. \<not> is_finite v \<Longrightarrow>
     map (\<lambda>(b, u, v). if b then u else v)
       (zip (map (\<lambda>v. jf_eq v (Fin 0)) ys) (zip (replicate (length ys) (Fin 1)) ys)) = ys"
  by (induction ys) (simp_all add: not_finite_simps)

lemma zero_divide_scale:
  "scalar_arith jf_div x 0
     = tmap (\<lambda>v. jf_div v (Fin 0)) (convert_to x (weak_float_result (dtype x)))"
  unfolding scalar_arith_eq round_to_zero
  by (simp add: tmap_def not_finite_simps(2) [OF div_zero_not_finite])

lemma finfo_eps_floating: "finfo_eps dt = Inr eps \<Longrightarrow> is_floating dt"
  by (cases dt) simp_all

lemma finfo_eps_exact:
  assumes "finfo_eps dt = Inr eps" and d: "is_floating d"
  shows "round_to d eps = Fin eps"
proof -
  have "\<exists>j::int. eps = of_int 1 * 2 powi j \<and> - 23 \<le> j \<and> j \<le> - 7"
  proof (cases dt)
    case BFloat16
    with assms(1) have "2 powi (- 7) = eps" by (simp only: finfo_eps.simps sum.inject)
    then have "eps = of_int 1 * 2 powi (- 7) \<and> - 23 \<le> (- 7 :: int) \<and> (- 7 :: int) \<le> - 7" by simp
    then show ?thesis ..
  next
    case Float16
    with assms(1) have "2 powi (- 10) = eps" by (simp only: finfo_eps.simps sum.inject)
    then have "eps = of_int 1 * 2 powi (- 10) \<and> - 23 \<le> (- 10 :: int) \<and> (- 10 :: int) \<le> - 7" by simp
    then show ?thesis ..
  next
    case Float32
    with assms(1) have "2 powi (- 23) = eps" by (simp only: finfo_eps.simps sum.inject)
    then have "eps = of_int 1 * 2 powi (- 23) \<and> - 23 \<le> (- 23 :: int) \<and> (- 23 :: int) \<le> - 7" by simp
    then show ?thesis ..
  qed (use assms(1) in simp_all)
  then obtain j :: int where j: "eps = of_int 1 * 2 powi j" "- 23 \<le> j" "j \<le> - 7"
    by blast
  have "(2::real) powi j \<le> 2 powi (- 7)"
    using j(3) by (intro power_int_increasing) simp_all
  moreover have "(0::real) < 2 powi j" by (rule zero_less_power_int) simp
  ultimately have "\<bar>of_int 1 * 2 powi j :: real\<bar> \<le> 2 powi (- 7)"
    by (simp only: of_int_1 mult_1 abs_of_pos)
  also have "\<dots> < 2 powi (max_exp d + 1)"
    using floating_params(4) [OF d] by (intro power_int_strict_increasing) simp_all
  finally have "\<bar>of_int 1 * 2 powi j :: real\<bar> < 2 powi (max_exp d + 1)" .
  moreover have "min_exp d - int (sig_bits d) + 1 \<le> j"
    using d j(2) by (cases d) simp_all
  ultimately show ?thesis
    unfolding j(1) by (intro round_to_exact [OF d]) simp_all
qed

lemma promote_types_floating: "is_floating a \<Longrightarrow> is_floating (promote_types a b)"
  by (cases a; cases b) (simp_all add: promote_types_def)

lemma astype_not_finite:
  assumes "\<forall>v\<in>set (elems y). \<not> is_finite v" and "is_floating d"
  shows "elems (convert_to y d) = elems y"
  using assms
  by (simp add: convert_to_def astype_def convert_element_type_def not_finite_simps(2) cong: map_cong)

lemma scale_at_precision_zero:
  assumes "get_quant_scale \<lparr>precision = Some 0, stop_scale_gradient = s\<rparr> x contract_dims dt = Inr scale"
  shows "\<exists>x_bound. jnp_max_keepdims (jnp_abs x) contract_dims = Inr x_bound
            \<and> scale = astype (tmap (\<lambda>v. jf_div v (Fin 0))
                                 (convert_to x_bound (weak_float_result (dtype x_bound)))) dt"
proof -
  from assms obtain x_bound where red: "jnp_max_keepdims (jnp_abs x) contract_dims = Inr x_bound"
    by (auto simp: get_quant_scale_def split: sum.splits)
  have cb0: "get_clip_bound \<lparr>precision = Some 0, stop_scale_gradient = s\<rparr> = Inr 0" for s
    by (simp add: get_clip_bound_Some)
  let ?d = "weak_float_result (dtype x_bound)"
  let ?sc = "tmap (\<lambda>v. jf_div v (Fin 0)) (convert_to x_bound ?d)"
  have nf: "\<forall>v\<in>set (elems ?sc). \<not> is_finite v"
    by (simp add: tmap_def div_zero_not_finite)
  have dsc: "dtype ?sc = ?d"
    by (simp add: tmap_def dtype_convert_to)
  have c: "jnp_where (map (\<lambda>v. jf_eq v (Fin 0)) (elems ?sc)) (jnp_ones_like ?sc) ?sc = ?sc"
    using where_not_finite [OF nf] by (simp add: jnp_where_def jnp_ones_like_def)
  have "scale = astype ?sc dt"
  proof (cases s)
    case True
    have "get_quant_scale \<lparr>precision = Some 0, stop_scale_gradient = True\<rparr> x contract_dims dt
        = Inr (astype ?sc dt)"
      unfolding get_quant_scale_def
      by (simp add: red cb0 Let_def stop_gradient_def zero_divide_scale c del: map_map)
    with assms True show ?thesis by simp
  next
    case False
    from assms False obtain eps where eps: "finfo_eps dt = Inr eps"
      by (auto simp: get_quant_scale_def red cb0 Let_def split: sum.splits)
    note fdt = finfo_eps_floating [OF eps]
    let ?p = "promote_types ?d dt"
    have fp: "is_floating ?p"
      by (rule promote_types_floating) (rule weak_float_result_floating)
    have ce: "convert_element_type dt ?p (Fin eps) = Fin eps"
      using finfo_eps_exact [OF eps fp] fp by (simp add: convert_element_type_def)
    have el: "elems (convert_to ?sc ?p) = elems ?sc"
      by (rule astype_not_finite [OF nf fp])
    have t: "typed_scalar_arith jf_add ?sc dt eps = (convert_to ?sc ?p)\<lparr>elems := elems ?sc\<rparr>"
      unfolding typed_scalar_arith_def Let_def dsc ce tmap_def [of _ "convert_to ?sc ?p"] el
      using nf by (simp add: not_finite_simps cong: map_cong)
    have "astype ((convert_to ?sc ?p)\<lparr>elems := elems ?sc\<rparr>) dt = astype ?sc dt"
      using nf fdt
      by (simp add: astype_def shape_convert_to convert_element_type_def cong: map_cong)
    then have "get_quant_scale \<lparr>precision = Some 0, stop_scale_gradient = False\<rparr> x contract_dims dt
        = Inr (astype ?sc dt)"
      unfolding get_quant_scale_def
      by (simp add: red cb0 Let_def eps zero_divide_scale t del: map_map)
    with assms False show ?thesis by simp
  qed
  with red show ?thesis by blast
qed

text \<open>
  C10.  \<open>setup_layer\<close> accepts every precision \<open>p \<le> 0\<close>.  At precision 0 the clip bound
  is 0, \<open>get_quant_scale\<close> divides the maximum of \<open>|x|\<close> by it, and every element of the
  quotient is an infinity or NaN; so is every element of the scale it returns when
  \<open>dtype\<close> is a floating type.
\<close>

theorem nonpositive_precision_accepted:
  "(p \<le> 0 \<longrightarrow> setup_layer \<lparr>precision = Some p, stop_scale_gradient = s\<rparr> = Inr ())
   \<and> get_clip_bound \<lparr>precision = Some 0, stop_scale_gradient = s\<rparr> = Inr 0
   \<and> (get_quant_scale \<lparr>precision = Some 0, stop_scale_gradient = s\<rparr> x contract_dims dt = Inr scale
        \<longrightarrow> (\<exists>x_bound. jnp_max_keepdims (jnp_abs x) contract_dims = Inr x_bound
                \<and> scale = astype (tmap (\<lambda>v. jf_div v (Fin 0))
                                     (convert_to x_bound (weak_float_result (dtype x_bound)))) dt)
            \<and> (is_floating dt \<longrightarrow> (\<forall>v\<in>set (elems scale). \<not> is_finite v)))"
proof (intro conjI impI)
  assume "p \<le> 0"
  then show "setup_layer \<lparr>precision = Some p, stop_scale_gradient = s\<rparr> = Inr ()"
    by (simp add: setup_layer_def)
next
  show "get_clip_bound \<lparr>precision = Some 0, stop_scale_gradient = s\<rparr> = Inr 0"
    by (simp add: get_clip_bound_Some)
next
  assume a: "get_quant_scale \<lparr>precision = Some 0, stop_scale_gradient = s\<rparr> x contract_dims dt = Inr scale"
  from scale_at_precision_zero [OF a]
  show e: "\<exists>x_bound. jnp_max_keepdims (jnp_abs x) contract_dims = Inr x_bound
                \<and> scale = astype (tmap (\<lambda>v. jf_div v (Fin 0))
                                     (convert_to x_bound (weak_float_result (dtype x_bound)))) dt" .
  assume "is_floating dt"
  with e show "\<forall>v\<in>set (elems scale). \<not> is_finite v"
    by (auto simp: astype_def tmap_def convert_element_type_def
        not_finite_simps(2) [OF div_zero_not_finite] div_zero_not_finite)
qed

theorem nonpositive_precision_accepted_witness:
  "(-1::int) \<le> 0
   \<and> setup_layer \<lparr>precision = Some (-1), stop_scale_gradient = True\<rparr> = Inr ()
   \<and> setup_layer \<lparr>precision = Some 0, stop_scale_gradient = True\<rparr> = Inr ()
   \<and> get_clip_bound \<lparr>precision = Some 0, stop_scale_gradient = True\<rparr> = Inr 0
   \<and> get_quant_scale \<lparr>precision = Some 0, stop_scale_gradient = True\<rparr>
        \<lparr>shape = [3], elems = [Fin 0, Fin 0, Fin 0], dtype = BFloat16\<rparr> [0] BFloat16
       = Inr \<lparr>shape = [1], elems = [NaN], dtype = BFloat16\<rparr>
   \<and> get_quant_scale \<lparr>precision = Some 0, stop_scale_gradient = True\<rparr>
        \<lparr>shape = [3], elems = [Fin 3, Fin (-200), Fin 0], dtype = BFloat16\<rparr> [0] BFloat16
       = Inr \<lparr>shape = [1], elems = [PInf], dtype = BFloat16\<rparr>
   \<and> is_floating BFloat16 \<and> \<not> is_finite NaN \<and> \<not> is_finite PInf"
proof -
  have g0: "get_quant_scale \<lparr>precision = Some 0, stop_scale_gradient = True\<rparr>
        \<lparr>shape = [3], elems = [Fin 0, Fin 0, Fin 0], dtype = BFloat16\<rparr> [0] BFloat16
       = Inr \<lparr>shape = [1], elems = [NaN], dtype = BFloat16\<rparr>"
    by (simp add: get_quant_scale_def get_clip_bound_Some jnp_max_keepdims_def jnp_abs_def
        tmap_def ndim_def Let_def upt_rec stop_gradient_def jnp_where_def jnp_ones_like_def astype_def
        zero_divide_scale convert_to_def weak_float_result_def convert_element_type_def)
  have g3: "get_quant_scale \<lparr>precision = Some 0, stop_scale_gradient = True\<rparr>
        \<lparr>shape = [3], elems = [Fin 3, Fin (-200), Fin 0], dtype = BFloat16\<rparr> [0] BFloat16
       = Inr \<lparr>shape = [1], elems = [PInf], dtype = BFloat16\<rparr>"
    by (simp add: get_quant_scale_def get_clip_bound_Some jnp_max_keepdims_def jnp_abs_def
        tmap_def ndim_def Let_def upt_rec stop_gradient_def jnp_where_def jnp_ones_like_def astype_def
        zero_divide_scale convert_to_def weak_float_result_def convert_element_type_def)
  from nonpositive_precision_accepted [of "-1" True
      "\<lparr>shape = [3], elems = [Fin 0, Fin 0, Fin 0], dtype = BFloat16\<rparr>" "[0]" BFloat16
      "\<lparr>shape = [1], elems = [NaN], dtype = BFloat16\<rparr>"]
    nonpositive_precision_accepted [of 0 True
      "\<lparr>shape = [3], elems = [Fin 3, Fin (-200), Fin 0], dtype = BFloat16\<rparr>" "[0]" BFloat16
      "\<lparr>shape = [1], elems = [PInf], dtype = BFloat16\<rparr>"]
    g0 g3
  show ?thesis by simp
qed

subsection \<open>The scale of an all-zero input\<close>

lemma map2_maximum_zeros:
  assumes us: "\<forall>v\<in>set us. v = Fin 0" and vs: "\<forall>v\<in>set vs. v = Fin 0"
  shows "\<forall>v\<in>set (map2 jf_maximum us vs). v = Fin 0"
proof
  fix v assume "v \<in> set (map2 jf_maximum us vs)"
  then obtain a b where ab: "(a, b) \<in> set (zip us vs)" and v: "v = jf_maximum a b"
    by auto
  from ab have "a \<in> set us" "b \<in> set vs"
    by (auto dest: set_zip_leftD set_zip_rightD)
  with us vs have "a = Fin 0" "b = Fin 0"
    by blast+
  with v show "v = Fin 0" by simp
qed

lemma fold_maximum_zeros:
  "\<forall>r\<in>set rs. \<forall>v\<in>set r. v = Fin 0 \<Longrightarrow> \<forall>v\<in>set acc. v = Fin 0 \<Longrightarrow>
     \<forall>v\<in>set (fold (\<lambda>u acc. map2 jf_maximum acc u) rs acc). v = Fin 0"
proof (induction rs arbitrary: acc)
  case Nil
  then show ?case by simp
next
  case (Cons r rs)
  have "\<forall>v\<in>set (map2 jf_maximum acc r). v = Fin 0"
    using Cons.prems by (intro map2_maximum_zeros) simp_all
  moreover have "\<forall>r\<in>set rs. \<forall>v\<in>set r. v = Fin 0"
    using Cons.prems by simp
  ultimately have "\<forall>v\<in>set (fold (\<lambda>u acc. map2 jf_maximum acc u) rs (map2 jf_maximum acc r)). v = Fin 0"
    by (intro Cons.IH)
  then show ?case by simp
qed

lemma reduce_max_zeros:
  "\<forall>v\<in>set xs. v = Fin 0 \<Longrightarrow> \<forall>v\<in>set (reduce_max shp cs xs). v = Fin 0"
proof (induction shp cs xs rule: reduce_max.induct)
  case (1 cs xs)
  then show ?case by simp
next
  case (2 d ds xs)
  then show ?case by simp
next
  case (3 d ds c cs xs)
  let ?rows = "map (\<lambda>i. reduce_max ds cs (take (prod_list ds) (drop (i * prod_list ds) xs))) [0..<d]"
  have rows: "\<forall>r\<in>set ?rows. \<forall>v\<in>set r. v = Fin 0"
  proof
    fix r assume "r \<in> set ?rows"
    then obtain i where i: "i \<in> set [0..<d]"
      and r: "r = reduce_max ds cs (take (prod_list ds) (drop (i * prod_list ds) xs))"
      by auto
    have "\<forall>v\<in>set (take (prod_list ds) (drop (i * prod_list ds) xs)). v = Fin 0"
      using "3.prems" by (meson in_set_dropD in_set_takeD)
    from "3.IH" [OF refl i this] show "\<forall>v\<in>set r. v = Fin 0"
      unfolding r .
  qed
  show ?case
  proof (cases c)
    case True
    show ?thesis
    proof (cases ?rows)
      case Nil
      with True show ?thesis by (simp add: Let_def)
    next
      case (Cons r rs)
      with rows have "\<forall>r'\<in>set rs. \<forall>v\<in>set r'. v = Fin 0" "\<forall>v\<in>set r. v = Fin 0"
        by simp_all
      from fold_maximum_zeros [OF this] True Cons show ?thesis
        by (simp add: Let_def)
    qed
  next
    case False
    with rows show ?thesis by (auto simp: Let_def)
  qed
qed

lemma fl64_mono: "r \<le> s \<Longrightarrow> fl64 r \<le> fl64 s"
  unfolding fl64_def by (rule float_convert_mono) simp_all

lemma clip_bound_magnitude:
  assumes "p \<noteq> 0" and "p \<le> 1023"
  shows "\<exists>cb. get_clip_bound \<lparr>precision = Some p, stop_scale_gradient = s\<rparr> = Inr cb \<and> 1 / 4 \<le> \<bar>cb\<bar>"
proof -
  have one: "fl64 1 = 1" using fl64_exact [of 1 0] by simp
  have half: "fl64 (1 / 2) = 1 / 2" using fl64_exact [of 1 "- 1"] by (simp add: power_int_minus)
  have mhalf: "fl64 (- 1 / 2) = - 1 / 2" using fl64_exact [of "- 1" "- 1"] by (simp add: power_int_minus)
  have mquarter: "fl64 (- 1 / 4) = - 1 / 4" using fl64_exact [of "- 1" "- 2"] by (simp add: power_int_minus)
  obtain b :: real where b: "float_pow2 p = Inr b" and sgn: "(0 \<le> b \<and> b \<le> 1 / 2) \<or> 2 \<le> b"
  proof (cases "p < - 1074")
    case True
    then have "float_pow2 p = Inr 0" by (simp add: float_pow2_def)
    then show ?thesis using that [of 0] by simp
  next
    case False
    then have f: "float_pow2 p = Inr (2 powi p)" using assms(2) by (simp add: float_pow2_def)
    have pos: "(0::real) < 2 powi p" by (rule zero_less_power_int) simp
    consider "p \<le> - 1" | "1 \<le> p" using assms(1) by linarith
    then have "(0 \<le> (2::real) powi p \<and> (2::real) powi p \<le> 1 / 2) \<or> 2 \<le> (2::real) powi p"
    proof cases
      case 1
      then have "(2::real) powi p \<le> 2 powi (- 1)" by (intro power_int_increasing) simp_all
      then show ?thesis using pos by (simp add: power_int_minus)
    next
      case 2
      then have "(2::real) powi 1 \<le> 2 powi p" by (intro power_int_increasing) simp_all
      then show ?thesis by simp
    qed
    with f show ?thesis using that by blast
  qed
  from sgn have "1 / 4 \<le> \<bar>fl64 (fl64 (b - 1) / 2)\<bar>"
  proof
    assume "0 \<le> b \<and> b \<le> 1 / 2"
    then have "b - 1 \<le> - 1 / 2" by simp
    from fl64_mono [OF this] have "fl64 (b - 1) / 2 \<le> - 1 / 4" unfolding mhalf by simp
    from fl64_mono [OF this] show ?thesis unfolding mquarter by simp
  next
    assume "2 \<le> b"
    then have "1 \<le> b - 1" by simp
    from fl64_mono [OF this] have "1 / 2 \<le> fl64 (b - 1) / 2" unfolding one by simp
    from fl64_mono [OF this] show ?thesis unfolding half by simp
  qed
  then show ?thesis
    by (simp add: get_clip_bound_def b Let_def)
qed

lemma zero_divided:
  assumes d: "is_floating d" and c: "1 / 4 \<le> \<bar>c\<bar>"
  shows "round_result d (jf_div (Fin 0) (round_to d c)) = Fin 0"
proof -
  have "(2::real) powi (min_exp d) \<le> 2 powi (- 2)"
    using floating_params(5) [OF d] by (intro power_int_increasing) simp_all
  then have m: "(2::real) powi (min_exp d) \<le> 1 / 4" by (simp add: power_int_minus)
  have pos: "(0::real) < 2 powi (min_exp d)" by (rule zero_less_power_int) simp
  consider "2 powi (min_exp d) \<le> c" | "c \<le> - (2 powi (min_exp d))"
    using c m by (cases "0 \<le> c") simp_all
  then have "jf_div (Fin 0) (round_to d c) = Fin 0"
  proof cases
    case 1
    from round_to_positive [OF d this] consider "round_to d c = PInf"
      | a where "round_to d c = Fin a" "2 powi (min_exp d) \<le> a" by blast
    then show ?thesis
    proof cases
      case 2
      with pos have "a \<noteq> 0" by linarith
      with 2 show ?thesis by simp
    qed simp
  next
    case 2
    from round_to_negative [OF d this] consider "round_to d c = NInf"
      | a where "round_to d c = Fin a" "a \<le> - (2 powi (min_exp d))" by blast
    then show ?thesis
    proof cases
      case 2
      with pos have "a \<noteq> 0" by linarith
      with 2 show ?thesis by simp
    qed simp
  qed
  then show ?thesis using d by (simp add: round_to_zero)
qed

lemma wrap_zero: "wrap d 0 = 0"
  by (cases d) (simp_all add: wrap_def int_min_def)

lemma convert_one: "is_floating d \<Longrightarrow> convert_element_type d dt (Fin 1) = Fin 1"
  using round_to_int [of dt 1]
  by (cases dt) (simp_all add: convert_element_type_def int_min_def int_max_def trunc_def)

text \<open>
  C6 does not hold at precision 0, which \<open>setup_layer\<close> accepts: the clip bound is 0, the
  scale of an all-zero input is \<open>0 / 0\<close>, and NaN is not equal to 0, so \<^verbatim>\<open>jnp.where\<close>
  leaves it.
\<close>

theorem zero_input_scale_nan:
  "setup_layer \<lparr>precision = Some 0, stop_scale_gradient = True\<rparr> = Inr ()
   \<and> get_quant_scale \<lparr>precision = Some 0, stop_scale_gradient = True\<rparr>
        \<lparr>shape = [2, 2], elems = [Fin 0, Fin 0, Fin 0, Fin 0], dtype = Float32\<rparr> [1] Float32
       = Inr \<lparr>shape = [2, 1], elems = [NaN, NaN], dtype = Float32\<rparr>"
  by (simp add: setup_layer_def get_quant_scale_def get_clip_bound_Some jnp_max_keepdims_def
      jnp_abs_def tmap_def ndim_def Let_def upt_rec stop_gradient_def jnp_where_def
      jnp_ones_like_def astype_def zero_divide_scale convert_to_def weak_float_result_def
      convert_element_type_def)

text \<open>
  C6, amended.  For an all-zero input, every precision \<open>p\<close> other than 0 and
  \<open>stop_scale_gradient\<close> on, whenever \<^verbatim>\<open>jnp.max\<close> accepts \<open>contract_dims\<close>: every element
  of the scale that \<open>get_quant_scale\<close> returns is 1, for every element type of \<open>x\<close> and
  every \<open>dtype\<close>; and it returns a scale for every \<open>p \<le> 1023\<close> (above, \<^verbatim>\<open>2.0**p\<close> raises
  \<open>OverflowError\<close>).
\<close>

theorem zero_input_scale_is_one:
  assumes p: "p \<noteq> 0"
      and zero: "\<forall>v\<in>set (elems x). v = Fin 0"
      and red: "jnp_max_keepdims (jnp_abs x) contract_dims = Inr x_bound"
  shows "(p \<le> 1023 \<longrightarrow>
            get_quant_scale \<lparr>precision = Some p, stop_scale_gradient = True\<rparr> x contract_dims dt
              = Inr \<lparr>shape = shape x_bound,
                     elems = replicate (length (elems x_bound)) (Fin 1),
                     dtype = dt\<rparr>)
         \<and> (1023 < p \<longrightarrow>
            get_quant_scale \<lparr>precision = Some p, stop_scale_gradient = True\<rparr> x contract_dims dt
              = Inl OverflowError)"
proof (intro conjI impI)
  assume "1023 < p"
  then show "get_quant_scale \<lparr>precision = Some p, stop_scale_gradient = True\<rparr> x contract_dims dt
              = Inl OverflowError"
    by (simp add: get_quant_scale_def red get_clip_bound_def float_pow2_def)
next
  assume p2: "p \<le> 1023"
  let ?n = "length (elems x_bound)"
  let ?d = "weak_float_result (dtype x_bound)"
  note fd = weak_float_result_floating [of "dtype x_bound"]
  from clip_bound_magnitude [OF p p2] obtain cb where
    cb: "get_clip_bound \<lparr>precision = Some p, stop_scale_gradient = True\<rparr> = Inr cb"
    and cb0: "1 / 4 \<le> \<bar>cb\<bar>"
    by blast
  have "\<forall>v\<in>set (elems (jnp_abs x)). v = Fin 0"
    using zero by (auto simp: jnp_abs_def tmap_def wrap_zero)
  then have "\<forall>v\<in>set (reduce_max (shape (jnp_abs x)) cs (elems (jnp_abs x))). v = Fin 0" for cs
    by (rule reduce_max_zeros)
  then have "\<forall>v\<in>set (elems x_bound). v = Fin 0"
    using red by (auto simp: jnp_max_keepdims_def Let_def split: sum.splits if_splits)
  then have xb: "elems x_bound = replicate ?n (Fin 0)"
    by (simp add: replicate_length_same)
  have cv: "convert_to x_bound ?d = \<lparr>shape = shape x_bound, elems = replicate ?n (Fin 0), dtype = ?d\<rparr>"
  proof (cases "dtype x_bound = ?d")
    case True
    have "x_bound = \<lparr>shape = shape x_bound, elems = elems x_bound, dtype = dtype x_bound\<rparr>"
      by simp
    with True xb show ?thesis by (simp add: convert_to_def)
  next
    case False
    have "map (convert_element_type (dtype x_bound) ?d) (replicate ?n (Fin 0)) = replicate ?n (Fin 0)"
      using fd by (simp add: convert_element_type_def round_to_zero)
    with False xb show ?thesis by (simp add: convert_to_def astype_def)
  qed
  have s1: "scalar_arith jf_div x_bound cb
      = \<lparr>shape = shape x_bound, elems = replicate ?n (Fin 0), dtype = ?d\<rparr>"
    unfolding scalar_arith_eq cv by (simp add: tmap_def zero_divided [OF fd cb0])
  have s2: "jnp_where (replicate ?n True)
              (jnp_ones_like \<lparr>shape = shape x_bound, elems = replicate ?n (Fin 0), dtype = ?d\<rparr>)
              \<lparr>shape = shape x_bound, elems = replicate ?n (Fin 0), dtype = ?d\<rparr>
            = \<lparr>shape = shape x_bound, elems = replicate ?n (Fin 1), dtype = ?d\<rparr>"
    by (simp add: jnp_where_def jnp_ones_like_def zip_replicate)
  have s3: "astype \<lparr>shape = shape x_bound, elems = replicate ?n (Fin 1), dtype = ?d\<rparr> dt
            = \<lparr>shape = shape x_bound, elems = replicate ?n (Fin 1), dtype = dt\<rparr>"
    by (simp add: astype_def convert_one [OF fd])
  show "get_quant_scale \<lparr>precision = Some p, stop_scale_gradient = True\<rparr> x contract_dims dt
          = Inr \<lparr>shape = shape x_bound, elems = replicate ?n (Fin 1), dtype = dt\<rparr>"
    unfolding get_quant_scale_def
    by (simp add: red cb Let_def stop_gradient_def s1 s2 s3)
qed

theorem zero_input_scale_is_one_witness:
  "(8::int) \<noteq> 0
   \<and> set (elems \<lparr>shape = [3], elems = [Fin 0, Fin 0, Fin 0], dtype = BFloat16\<rparr>) = {Fin 0}
   \<and> jnp_max_keepdims (jnp_abs \<lparr>shape = [3], elems = [Fin 0, Fin 0, Fin 0], dtype = BFloat16\<rparr>) [0]
       = Inr \<lparr>shape = [1], elems = [Fin 0], dtype = BFloat16\<rparr>
   \<and> get_quant_scale \<lparr>precision = Some 8, stop_scale_gradient = True\<rparr>
        \<lparr>shape = [3], elems = [Fin 0, Fin 0, Fin 0], dtype = BFloat16\<rparr> [0] Int8
       = Inr \<lparr>shape = [1], elems = [Fin 1], dtype = Int8\<rparr>"
proof -
  have z: "\<forall>v\<in>set (elems \<lparr>shape = [3], elems = [Fin 0, Fin 0, Fin 0], dtype = BFloat16\<rparr>). v = Fin 0"
    by simp
  have r: "jnp_max_keepdims (jnp_abs \<lparr>shape = [3], elems = [Fin 0, Fin 0, Fin 0], dtype = BFloat16\<rparr>) [0]
       = Inr \<lparr>shape = [1], elems = [Fin 0], dtype = BFloat16\<rparr>"
    by (simp add: jnp_max_keepdims_def jnp_abs_def tmap_def ndim_def Let_def upt_rec)
  have p: "(8::int) \<noteq> 0" by simp
  from zero_input_scale_is_one [OF p z r, of Int8] r show ?thesis
    by simp
qed

subsection \<open>The scale\<close>
















end
